theory Spec2Isabelle
  imports Main "HOL-Library.Word" "HOL-Library.AList"
begin

unbundle bit_operations_syntax

section \<open>Common types\<close>

text \<open>
  Go's \<open>byte\<close>, \<open>[]byte\<close>, \<open>int64\<close>, \<open>uint32\<close> and \<open>uint64\<close>. Arithmetic on words wraps
  around as Go's fixed-width integers do. A Go \<open>string\<close> is a byte sequence whose
  \<open>len\<close> counts bytes; the LRU's string keys are \<open>string\<close> (a list of 8-bit characters).
\<close>

type_synonym byte = "8 word"
type_synonym bytes = "byte list"
type_synonym int64 = "64 word"
type_synonym uint32 = "32 word"
type_synonym uint64 = "64 word"

text \<open>
  Go \<open>error\<close> values, by kind. \<open>EOF\<close> is \<open>io.EOF\<close>, \<open>ErrClosed\<close> the error of a closed
  file, \<open>EIO\<close> an input/output error reported by the operating system; the others are the
  errors the repository creates with \<open>errors.New\<close>, and \<open>SourceError\<close> is whatever the
  caller-supplied getter or a remote peer returns.
\<close>

datatype err =
    EOF | ErrClosed | EIO | ErrNegativeOffset | ErrNotExist | ErrPermission
  | InvalidData | DatabaseFileIsNil | KeyIsNil | KeyNotExist | TypeAssertError
  | KeyIsRequired | PersistenceNotEnabled | SourceError string | MarshalError

text \<open>The run-time panics of the Go code that the model follows: the failed type
  assertion, the nil dereference, the slice bounds, and the explicit \<open>panic(...)\<close> calls
  of \<open>NewGroup\<close> with a message or with an error.\<close>

datatype panic =
  TypeAssertion | NilDereference | SliceBounds | PanicMessage string | PanicError err

section \<open>The LRU core (package lru)\<close>

text \<open>
  \<open>ByteView.Len\<close>: \<open>int64(len(v.data))\<close>. In this repository every value stored in the
  LRU is a \<open>ByteView\<close>, so the \<open>ComputableValue\<close> interface is modelled by the byte
  sequence of the view.
\<close>

definition Len :: "bytes \<Rightarrow> int64" where
  "Len v = of_nat (length v)"

record entry =
  key :: string
  insideValue :: bytes

text \<open>
  \<open>container/list\<close> elements carry a \<open>Value\<close> of type \<open>any\<close>. The code stores two kinds
  of values there: a pointer to an \<open>entry\<close> (\<open>PushFront(&entry{key, val})\<close>), and a
  pointer to another list element (\<open>PushFront(value0)\<close> in \<open>Add\<close>). Each entry is
  referenced by exactly the one element created for it, so the entry is kept inside
  that element's value; elements are addressed by natural numbers.
\<close>

datatype elem_value = EntryV entry | ElementV nat

text \<open>
  The cache: \<open>ll\<close> lists the addresses of the elements from front to back, \<open>elems\<close> is the
  store of elements (address to \<open>Value\<close>), \<open>cache\<close> is the Go map from key to element
  pointer and \<open>fresh\<close> the next unused address. \<open>OnEvicted\<close> says whether the callback is
  non-nil; its calls are recorded in \<open>evicted\<close>, latest first.
\<close>

record Cache =
  maxBytes :: int64
  nbytes :: int64
  ll :: "nat list"
  elems :: "nat \<rightharpoonup> elem_value"
  cache :: "string \<rightharpoonup> nat"
  fresh :: nat
  OnEvicted :: bool
  evicted :: "(string \<times> bytes) list"

definition New :: "int64 \<Rightarrow> bool \<Rightarrow> Cache" where
  "New mb onEvicted =
     \<lparr>maxBytes = mb, nbytes = 0, ll = [], elems = Map.empty, cache = Map.empty,
      fresh = 0, OnEvicted = onEvicted, evicted = []\<rparr>"

text \<open>\<open>list.PushFront(v)\<close>: allocate a new element holding \<open>v\<close> and link it at the front.\<close>

definition PushFront :: "Cache \<Rightarrow> elem_value \<Rightarrow> nat \<times> Cache" where
  "PushFront c v =
     (fresh c, c\<lparr>ll := fresh c # ll c, elems := (elems c)(fresh c \<mapsto> v), fresh := Suc (fresh c)\<rparr>)"

text \<open>\<open>list.Remove(e)\<close> unlinks \<open>e\<close> if it belongs to the list; \<open>list.MoveToFront(e)\<close>
  does nothing if \<open>e\<close> is not in the list or already first.\<close>

definition list_Remove :: "Cache \<Rightarrow> nat \<Rightarrow> Cache" where
  "list_Remove c a = c\<lparr>ll := remove1 a (ll c)\<rparr>"

definition MoveToFront :: "Cache \<Rightarrow> nat \<Rightarrow> Cache" where
  "MoveToFront c a = (if a \<in> set (ll c) then c\<lparr>ll := a # remove1 a (ll c)\<rparr> else c)"

definition call_OnEvicted :: "Cache \<Rightarrow> entry \<Rightarrow> Cache" where
  "call_OnEvicted c p =
     (if OnEvicted c then c\<lparr>evicted := (key p, insideValue p) # evicted c\<rparr> else c)"

text \<open>\<open>Cache.Get\<close>. The type assertion \<open>val.Value.(*entry)\<close> panics on any other value.\<close>

definition Get :: "Cache \<Rightarrow> string \<Rightarrow> panic + (Cache \<times> bytes option)" where
  "Get c k =
     (case cache c k of
        Some val \<Rightarrow>
          (case elems c val of
             Some (EntryV ele) \<Rightarrow> Inr (MoveToFront c val, Some (insideValue ele))
           | Some (ElementV _) \<Rightarrow> Inl TypeAssertion
           | None \<Rightarrow> Inl NilDereference)
      | None \<Rightarrow> Inr (c, None))"

text \<open>\<open>Cache.RemoveOldest\<close>: the back element is unlinked first, then its value is
  asserted to be an entry.\<close>

definition RemoveOldest :: "Cache \<Rightarrow> panic + Cache" where
  "RemoveOldest c =
     (if ll c = [] then Inr c
      else
        (let ele = last (ll c); c1 = list_Remove c ele in
         case elems c ele of
           Some (EntryV p) \<Rightarrow>
             Inr (call_OnEvicted
                    (c1\<lparr>cache := (cache c1)(key p := None),
                        nbytes := nbytes c1 - (of_nat (length (key p)) + Len (insideValue p))\<rparr>) p)
         | Some (ElementV _) \<Rightarrow> Inl TypeAssertion
         | None \<Rightarrow> Inl NilDereference))"

text \<open>
  The eviction loop of \<open>Add\<close>:
  \<^verbatim>\<open>for c.maxBytes > 0 && c.nbytes > c.maxBytes { c.RemoveOldest() }\<close>
  On an empty list \<open>RemoveOldest\<close> changes nothing, so the loop need not terminate;
  \<open>None\<close> is the loop that runs forever.
\<close>

partial_function (option) evict_loop :: "Cache \<Rightarrow> (panic + Cache) option" where
  "evict_loop c =
     (if 0 <s maxBytes c \<and> maxBytes c <s nbytes c
      then (case RemoveOldest c of Inl e \<Rightarrow> Some (Inl e) | Inr c' \<Rightarrow> evict_loop c')
      else Some (Inr c))"

definition finish_Add :: "(panic + Cache) option \<Rightarrow> (panic + Cache \<times> bool) option" where
  "finish_Add r = map_option (map_sum id (\<lambda>c. (c, True))) r"

text \<open>\<open>Cache.Add\<close>; the result carries the returned flag.\<close>

definition Add :: "Cache \<Rightarrow> string \<Rightarrow> bytes \<Rightarrow> (panic + Cache \<times> bool) option" where
  "Add c k val =
     (if 0 <s maxBytes c \<and> maxBytes c <s of_nat (length k) + Len val
      then Some (Inr (c, False))
      else
        (case cache c k of
           Some value0 \<Rightarrow>
             (let c1 = snd (PushFront c (ElementV value0)) in
              case elems c1 value0 of
                Some (EntryV temp) \<Rightarrow>
                  finish_Add (evict_loop
                    (c1\<lparr>nbytes := nbytes c1 + (Len (insideValue temp) - Len val),
                        elems := (elems c1)(value0 \<mapsto> EntryV (temp\<lparr>insideValue := val\<rparr>))\<rparr>))
              | Some (ElementV _) \<Rightarrow> Some (Inl TypeAssertion)
              | None \<Rightarrow> Some (Inl NilDereference))
         | None \<Rightarrow>
             (let (ele, c1) = PushFront c (EntryV \<lparr>key = k, insideValue = val\<rparr>) in
              finish_Add (evict_loop
                (c1\<lparr>cache := (cache c1)(k \<mapsto> ele),
                    nbytes := nbytes c1 + (of_nat (length k) + Len val)\<rparr>)))))"

text \<open>\<open>Cache.Remove\<close>.\<close>

definition Remove :: "Cache \<Rightarrow> string \<Rightarrow> panic + Cache" where
  "Remove c k =
     (if length k = 0 then Inr c
      else
        (case cache c k of
           Some ele \<Rightarrow>
             (case elems c ele of
                Some (EntryV p) \<Rightarrow>
                  (let c1 = list_Remove (c\<lparr>cache := (cache c)(key p := None)\<rparr>) ele in
                   Inr (call_OnEvicted
                          (c1\<lparr>nbytes := nbytes c1 - (of_nat (length (key p)) + Len (insideValue p))\<rparr>) p))
              | Some (ElementV _) \<Rightarrow> Inl TypeAssertion
              | None \<Rightarrow> Inl NilDereference)
         | None \<Rightarrow> Inr c))"

text \<open>Sequences of calls on one cache; a panic ends the sequence.\<close>

datatype lru_op = OpAdd string bytes | OpRemove string | OpRemoveOldest | OpGet string

definition lru_step :: "Cache \<Rightarrow> lru_op \<Rightarrow> (panic + Cache) option" where
  "lru_step c x =
     (case x of
        OpAdd k v \<Rightarrow> map_option (map_sum id fst) (Add c k v)
      | OpRemove k \<Rightarrow> Some (Remove c k)
      | OpRemoveOldest \<Rightarrow> Some (RemoveOldest c)
      | OpGet k \<Rightarrow> Some (map_sum id fst (Get c k)))"

fun lru_run :: "Cache \<Rightarrow> lru_op list \<Rightarrow> (panic + Cache) option" where
  "lru_run c [] = Some (Inr c)"
| "lru_run c (x # xs) =
     (case lru_step c x of
        None \<Rightarrow> None
      | Some (Inl e) \<Rightarrow> Some (Inl e)
      | Some (Inr c') \<Rightarrow> lru_run c' xs)"

text \<open>The bytes held by the stored entries: \<open>len(key) + value.Len()\<close> summed over the
  entries linked in the list.\<close>

definition entry_bytes :: "elem_value option \<Rightarrow> int64" where
  "entry_bytes v =
     (case v of Some (EntryV p) \<Rightarrow> of_nat (length (key p)) + Len (insideValue p) | _ \<Rightarrow> 0)"

definition stored_bytes :: "Cache \<Rightarrow> int64" where
  "stored_bytes c = sum_list (map (\<lambda>a. entry_bytes (elems c a)) (ll c))"

section \<open>Files of the operating system\<close>

text \<open>
  The part of the operating system the persistence layer uses. A directory maps path
  names to inodes, \<open>store\<close> holds the bytes of each inode, and an open file (\<open>*os.File\<close>)
  keeps the name it was opened under, its inode and whether it has been closed. The
  environment's failures are part of the state: \<open>deny_open\<close> holds of the paths the system
  refuses to open, \<open>io_error\<close> of the inodes whose reads and writes fail. Directories
  themselves are not modelled (\<open>os.Stat\<close> and \<open>os.MkdirAll\<close> of the data directory
  succeed), and \<open>filepath.Abs\<close> is the identity: paths are taken as absolute.
\<close>

record os_file =
  fname :: string
  inode :: nat
  closed :: bool

record filesys =
  dir :: "string \<rightharpoonup> nat"
  store :: "nat \<Rightarrow> bytes"
  next_inode :: nat
  deny_open :: "string \<Rightarrow> bool"
  io_error :: "nat \<Rightarrow> bool"

definition Join :: "string \<Rightarrow> string \<Rightarrow> string" where
  "Join d n = (if d = [] then n else d @ ''/'' @ n)"

text \<open>\<open>os.OpenFile(path, os.O_CREATE|os.O_RDWR, perm)\<close> and \<open>os.Open(path)\<close>.\<close>

definition OpenFile :: "filesys \<Rightarrow> string \<Rightarrow> err + (filesys \<times> os_file)" where
  "OpenFile fs path =
     (if deny_open fs path then Inl ErrPermission
      else
        (case dir fs path of
           Some i \<Rightarrow> Inr (fs, \<lparr>fname = path, inode = i, closed = False\<rparr>)
         | None \<Rightarrow>
             Inr (fs\<lparr>dir := (dir fs)(path \<mapsto> next_inode fs),
                     store := (store fs)(next_inode fs := []),
                     next_inode := Suc (next_inode fs)\<rparr>,
                  \<lparr>fname = path, inode = next_inode fs, closed = False\<rparr>)))"

definition os_Open :: "filesys \<Rightarrow> string \<Rightarrow> err + os_file" where
  "os_Open fs path =
     (if deny_open fs path then Inl ErrPermission
      else
        (case dir fs path of
           Some i \<Rightarrow> Inr \<lparr>fname = path, inode = i, closed = False\<rparr>
         | None \<Rightarrow> Inl ErrNotExist))"

text \<open>\<open>os.Stat(path)\<close>, of which the code uses the size and the not-exist error.\<close>

definition os_Stat :: "filesys \<Rightarrow> string \<Rightarrow> err + nat" where
  "os_Stat fs path =
     (case dir fs path of Some i \<Rightarrow> Inr (length (store fs i)) | None \<Rightarrow> Inl ErrNotExist)"

definition os_Rename :: "filesys \<Rightarrow> string \<Rightarrow> string \<Rightarrow> filesys \<times> err option" where
  "os_Rename fs old new =
     (case dir fs old of
        Some i \<Rightarrow> (fs\<lparr>dir := ((dir fs)(old := None))(new \<mapsto> i)\<rparr>, None)
      | None \<Rightarrow> (fs, Some ErrNotExist))"

definition os_Remove :: "filesys \<Rightarrow> string \<Rightarrow> filesys \<times> err option" where
  "os_Remove fs path =
     (case dir fs path of
        Some i \<Rightarrow> (fs\<lparr>dir := (dir fs)(path := None)\<rparr>, None)
      | None \<Rightarrow> (fs, Some ErrNotExist))"

definition file_Close :: "os_file \<Rightarrow> os_file \<times> err option" where
  "file_Close f = (f\<lparr>closed := True\<rparr>, if closed f then Some ErrClosed else None)"

text \<open>
  \<open>File.ReadAt(b, off)\<close> for a buffer of \<open>n\<close> bytes: a negative offset is refused, an empty
  buffer reads nothing and succeeds, and fewer than \<open>n\<close> bytes before the end of the file
  is \<open>io.EOF\<close>.
\<close>

definition ReadAt :: "filesys \<Rightarrow> os_file \<Rightarrow> nat \<Rightarrow> int \<Rightarrow> err + bytes" where
  "ReadAt fs f n off =
     (if off < 0 then Inl ErrNegativeOffset
      else if n = 0 then Inr []
      else if closed f then Inl ErrClosed
      else if io_error fs (inode f) then Inl EIO
      else if nat off + n \<le> length (store fs (inode f))
        then Inr (take n (drop (nat off) (store fs (inode f))))
      else Inl EOF)"

text \<open>\<open>File.WriteAt(b, off)\<close>: the bytes replace the file's content from \<open>off\<close> on; a gap
  between the end of the file and \<open>off\<close> reads as zeros.\<close>

definition write_bytes :: "bytes \<Rightarrow> bytes \<Rightarrow> nat \<Rightarrow> bytes" where
  "write_bytes content b off =
     take off (content @ replicate (off - length content) 0) @ b @ drop (off + length b) content"

definition WriteAt :: "filesys \<Rightarrow> os_file \<Rightarrow> bytes \<Rightarrow> int \<Rightarrow> err + filesys" where
  "WriteAt fs f b off =
     (if off < 0 then Inl ErrNegativeOffset
      else if b = [] then Inr fs
      else if closed f then Inl ErrClosed
      else if io_error fs (inode f) then Inl EIO
      else Inr (fs\<lparr>store := (store fs)(inode f := write_bytes (store fs (inode f)) b (nat off))\<rparr>))"

text \<open>\<open>io.Copy(dst, src)\<close> for two files that have not been read or written through their
  file position yet: the whole of \<open>src\<close> is written at the start of \<open>dst\<close>.\<close>

definition io_Copy :: "filesys \<Rightarrow> os_file \<Rightarrow> os_file \<Rightarrow> err + filesys" where
  "io_Copy fs dst src =
     (if closed src then Inl ErrClosed
      else if io_error fs (inode src) then Inl EIO
      else if store fs (inode src) = [] then Inr fs
      else WriteAt fs dst (store fs (inode src)) 0)"

section \<open>The persistence log (package persistence)\<close>

subsection \<open>Records\<close>

definition HeaderSize :: nat where
  "HeaderSize = 20"

record Entry =
  Key :: bytes
  Value :: bytes
  KeySize :: uint32
  ValueSize :: uint32
  Mark :: uint32
  Timestamp :: uint64

definition DataFileName :: string where "DataFileName = ''append.data''"
definition MergeFileName :: string where "MergeFileName = ''append.data.merge''"
definition DataBackupFileName :: string where "DataBackupFileName = ''append.data.bak''"

definition PUT :: uint32 where "PUT = 0"
definition DEL :: uint32 where "DEL = 1"

text \<open>\<open>NewEntry\<close>: the conversions \<open>uint32(len(Key))\<close> and \<open>uint32(len(Value))\<close> truncate.\<close>

definition NewEntry :: "bytes \<Rightarrow> bytes \<Rightarrow> uint32 \<Rightarrow> uint64 \<Rightarrow> Entry" where
  "NewEntry k v m t =
     \<lparr>Key = k, Value = v, KeySize = of_nat (length k), ValueSize = of_nat (length v),
      Mark = m, Timestamp = t\<rparr>"

text \<open>\<open>Entry.Size\<close>: the sum is computed in \<open>uint32\<close> and then widened.\<close>

definition Size :: "Entry \<Rightarrow> uint64" where
  "Size e = ucast (KeySize e + ValueSize e + 20)"

text \<open>\<open>binary.BigEndian\<close>. \<open>Uint32\<close> and \<open>Uint64\<close> index their argument as the Go
  functions do; \<open>Decode\<close> calls them on slices of exactly four and eight bytes.\<close>

definition PutUint32 :: "uint32 \<Rightarrow> bytes" where
  "PutUint32 v = [ucast (drop_bit 24 v), ucast (drop_bit 16 v), ucast (drop_bit 8 v), ucast v]"

definition PutUint64 :: "uint64 \<Rightarrow> bytes" where
  "PutUint64 v =
     [ucast (drop_bit 56 v), ucast (drop_bit 48 v), ucast (drop_bit 40 v), ucast (drop_bit 32 v),
      ucast (drop_bit 24 v), ucast (drop_bit 16 v), ucast (drop_bit 8 v), ucast v]"

definition Uint32 :: "bytes \<Rightarrow> uint32" where
  "Uint32 b =
     ucast (b ! 3) OR push_bit 8 (ucast (b ! 2)) OR push_bit 16 (ucast (b ! 1)) OR
     push_bit 24 (ucast (b ! 0))"

definition Uint64 :: "bytes \<Rightarrow> uint64" where
  "Uint64 b =
     ucast (b ! 7) OR push_bit 8 (ucast (b ! 6)) OR push_bit 16 (ucast (b ! 5)) OR
     push_bit 24 (ucast (b ! 4)) OR push_bit 32 (ucast (b ! 3)) OR push_bit 40 (ucast (b ! 2)) OR
     push_bit 48 (ucast (b ! 1)) OR push_bit 56 (ucast (b ! 0))"

text \<open>The Go slice expression \<open>b[lo:hi]\<close> within bounds, and the effect of
  \<open>copy(dst, src)\<close> on a zeroed destination of \<open>n\<close> bytes: as many bytes as fit, zeros after.\<close>

definition byte_slice :: "nat \<Rightarrow> nat \<Rightarrow> bytes \<Rightarrow> bytes" where
  "byte_slice lo hi b = take (hi - lo) (drop lo b)"

definition copied :: "nat \<Rightarrow> bytes \<Rightarrow> bytes" where
  "copied n src = take n src @ replicate (n - length src) 0"

text \<open>
  \<open>Entry.Encode\<close>. The buffer has \<open>Size()\<close> bytes. The slice expressions
  \<open>result[:4]\<close> ... \<open>result[12:HeaderSize]\<close> panic when the buffer is shorter than the
  header, \<open>result[HeaderSize:HeaderSize+entry.KeySize]\<close> (its upper bound computed in
  \<open>uint32\<close>) and \<open>result[HeaderSize+entry.KeySize:entry.Size()]\<close> when the bounds are out
  of order or beyond the buffer.
\<close>

definition Encode :: "Entry \<Rightarrow> panic + bytes" where
  "Encode e =
     (let n = unat (Size e); kend = unat (20 + KeySize e) in
      if n < HeaderSize \<or> kend < HeaderSize \<or> n < kend then Inl SliceBounds
      else Inr (PutUint32 (KeySize e) @ PutUint32 (ValueSize e) @ PutUint32 (Mark e) @
                PutUint64 (Timestamp e) @
                copied (kend - HeaderSize) (Key e) @ copied (n - kend) (Value e)))"

text \<open>\<open>Decode\<close> reads the header only: \<open>Key\<close> and \<open>Value\<close> of the result are nil.\<close>

definition Decode :: "bytes \<Rightarrow> err + Entry" where
  "Decode date =
     (if length date < HeaderSize then Inl InvalidData
      else Inr \<lparr>Key = [], Value = [],
                KeySize = Uint32 (byte_slice 0 4 date), ValueSize = Uint32 (byte_slice 4 8 date),
                Mark = Uint32 (byte_slice 8 12 date), Timestamp = Uint64 (byte_slice 12 HeaderSize date)\<rparr>)"

subsection \<open>The data file\<close>

text \<open>\<open>DatabaseFile\<close>: the open file and the append offset (an \<open>int64\<close>; file sizes stay
  far below \<open>2^63\<close>, so it is an integer here). The buffer pool and the locks are left out.\<close>

record DatabaseFile =
  File :: os_file
  offset :: int

definition new :: "filesys \<Rightarrow> string \<Rightarrow> err + (filesys \<times> DatabaseFile)" where
  "new fs path_file =
     (case OpenFile fs path_file of
        Inl e \<Rightarrow> Inl e
      | Inr (fs', file) \<Rightarrow>
          (case os_Stat fs' path_file of
             Inl e \<Rightarrow> Inl e
           | Inr sz \<Rightarrow> Inr (fs', \<lparr>File = file, offset = int sz\<rparr>)))"

definition NewDataFile :: "filesys \<Rightarrow> string \<Rightarrow> string \<Rightarrow> err + (filesys \<times> DatabaseFile)" where
  "NewDataFile fs path fileName =
     (if length fileName = 0 then new fs (Join path DataFileName)
      else new fs (Join path fileName))"

definition NewMergeFile :: "filesys \<Rightarrow> string \<Rightarrow> err + (filesys \<times> DatabaseFile)" where
  "NewMergeFile fs path = new fs (Join path MergeFileName)"

definition IsOffsetEqual :: "DatabaseFile \<Rightarrow> int \<Rightarrow> bool" where
  "IsOffsetEqual f off = (offset f = off)"

definition GetOffset :: "DatabaseFile \<Rightarrow> int" where
  "GetOffset f = offset f"

definition AddOffset :: "DatabaseFile \<Rightarrow> int \<Rightarrow> DatabaseFile" where
  "AddOffset f delta = f\<lparr>offset := offset f + delta\<rparr>"

text \<open>\<open>DatabaseFile.Write\<close>: the result is the new state and what the call returns, an
  error or the \<open>int64\<close>.\<close>

definition Write ::
  "filesys \<Rightarrow> DatabaseFile \<Rightarrow> Entry \<Rightarrow> panic + (filesys \<times> DatabaseFile \<times> (err + int))" where
  "Write fs f entry =
     (case Encode entry of
        Inl p \<Rightarrow> Inl p
      | Inr data \<Rightarrow>
          (let off = GetOffset f in
           case WriteAt fs (File f) data off of
             Inl e \<Rightarrow> Inr (fs, f, Inl e)
           | Inr fs' \<Rightarrow> Inr (fs', AddOffset f (int (unat (Size entry))), Inr off)))"

text \<open>\<open>DatabaseFile.Read\<close>: header, then key, then value, each with \<open>ReadAt\<close>. The
  value's offset adds \<open>int64(HeaderSize+entry.KeySize)\<close>, computed in \<open>uint32\<close>.\<close>

definition Read :: "filesys \<Rightarrow> DatabaseFile \<Rightarrow> int \<Rightarrow> err + Entry" where
  "Read fs f off =
     (case ReadAt fs (File f) HeaderSize off of
        Inl e \<Rightarrow> Inl e
      | Inr header \<Rightarrow>
          (case Decode header of
             Inl e \<Rightarrow> Inl e
           | Inr entry \<Rightarrow>
               (case ReadAt fs (File f) (unat (KeySize entry)) (off + int HeaderSize) of
                  Inl e \<Rightarrow> Inl e
                | Inr k \<Rightarrow>
                    (case ReadAt fs (File f) (unat (ValueSize entry))
                            (off + int (unat (20 + KeySize entry))) of
                       Inl e \<Rightarrow> Inl e
                     | Inr v \<Rightarrow> Inr (entry\<lparr>Key := k, Value := v\<rparr>)))))"

definition DatabaseFile_Close :: "DatabaseFile \<Rightarrow> DatabaseFile \<times> err option" where
  "DatabaseFile_Close f = (f\<lparr>File := fst (file_Close (File f))\<rparr>, snd (file_Close (File f)))"

subsection \<open>The write sequence\<close>

text \<open>
  \<open>WriteSequence\<close>. The index (a \<open>sync.Map\<close> from \<open>string(key)\<close> to the \<open>int64\<close> offset) is
  an association list with one pair per key; \<open>Range\<close> visits the pairs in the order of
  the list (Go leaves the order open). \<open>databaseFile\<close> is never nil in a write sequence
  made by \<open>NewWriteSequence\<close>, the only constructor, so it is a plain field and the nil
  check of \<open>loadIndex\<close> has no counterpart. The current time of \<open>time.Now().UnixMilli()\<close>
  is the argument \<open>now\<close> of the operations that read the clock.
\<close>

record WriteSequence =
  index :: "(bytes \<times> int) list"
  dataPath :: string
  databaseFile :: DatabaseFile

text \<open>
  The loop of \<open>loadIndex\<close>:
  \<^verbatim>\<open>for !w.databaseFile.IsOffsetEqual(offset) { entry, err := Read(offset); ... }\<close>
  It ends when the offset meets the file's offset or \<open>Read\<close> fails; a record of size 0
  would keep it running, so it is a partial function, \<open>None\<close> for the loop that never ends.
\<close>

partial_function (option) loadIndex_loop ::
  "filesys \<Rightarrow> DatabaseFile \<Rightarrow> (bytes \<times> int) list \<Rightarrow> int \<Rightarrow> (err + (bytes \<times> int) list) option" where
  "loadIndex_loop fs f idx off =
     (if IsOffsetEqual f off then Some (Inr idx)
      else
        (case Read fs f off of
           Inl e \<Rightarrow> (if e = EOF then Some (Inr idx) else Some (Inl e))
         | Inr entry \<Rightarrow>
             loadIndex_loop fs f
               (if Mark entry = DEL then AList.delete (Key entry) idx
                else AList.update (Key entry) off idx)
               (off + int (unat (Size entry)))))"

definition loadIndex :: "filesys \<Rightarrow> WriteSequence \<Rightarrow> (err + WriteSequence) option" where
  "loadIndex fs w =
     map_option (map_sum id (\<lambda>idx. w\<lparr>index := idx\<rparr>))
       (loadIndex_loop fs (databaseFile w) (index w) 0)"

text \<open>Decimal digits, for \<open>fmt.Sprintf("%s.temp.%d", data_file_abs, timestamp)\<close>.\<close>

fun digits :: "nat \<Rightarrow> string" where
  "digits n =
     (if n < 10 then [char_of (48 + n)] else digits (n div 10) @ [char_of (48 + n mod 10)])"

definition itoa :: "int \<Rightarrow> string" where
  "itoa i = (if i < 0 then ''-'' @ digits (nat (- i)) else digits (nat i))"

text \<open>
  \<open>NewWriteSequence(dir_path, backup_file)\<close>. With a seed file that is not the data file
  itself, an existing data file is renamed away and the seed is copied into a new one;
  then the data file is opened and the index is loaded from it.
\<close>

definition seed_data_file :: "filesys \<Rightarrow> string \<Rightarrow> string \<Rightarrow> int64 \<Rightarrow> err + filesys" where
  "seed_data_file fs dir_path_abs backup_file now =
     (if length backup_file \<noteq> 0 \<and> Join dir_path_abs DataFileName \<noteq> backup_file then
        (let data_file_abs = Join dir_path_abs DataFileName in
         case os_Open fs backup_file of
           Inl e1 \<Rightarrow> Inl e1
         | Inr file1 \<Rightarrow>
             (case (if os_Stat fs data_file_abs \<noteq> Inl ErrNotExist
                    then os_Rename fs data_file_abs (data_file_abs @ ''.temp.'' @ itoa (sint now))
                    else (fs, None)) of
                (fs1, Some e) \<Rightarrow> Inl e
              | (fs1, None) \<Rightarrow>
                  (case OpenFile fs1 data_file_abs of
                     Inl e2 \<Rightarrow> Inl e2
                   | Inr (fs2, file2) \<Rightarrow> io_Copy fs2 file2 file1)))
      else Inr fs)"

definition NewWriteSequence ::
  "filesys \<Rightarrow> string \<Rightarrow> string \<Rightarrow> int64 \<Rightarrow> (err + (filesys \<times> WriteSequence)) option" where
  "NewWriteSequence fs dir_path backup_file now =
     (case seed_data_file fs dir_path backup_file now of
        Inl e \<Rightarrow> Some (Inl e)
      | Inr fs1 \<Rightarrow>
          (case NewDataFile fs1 dir_path [] of
             Inl e \<Rightarrow> Some (Inl e)
           | Inr (fs2, df) \<Rightarrow>
               map_option (map_sum id (\<lambda>w. (fs2, w)))
                 (loadIndex fs2 \<lparr>index = [], dataPath = dir_path, databaseFile = df\<rparr>)))"

text \<open>\<open>WriteSequence.Put\<close>. Results of the operations are the new state and the returned
  error (\<open>None\<close> for nil); \<open>Inl\<close> is a panic.\<close>

definition Put ::
  "filesys \<Rightarrow> WriteSequence \<Rightarrow> bytes \<Rightarrow> bytes \<Rightarrow> int64 \<Rightarrow>
   panic + (filesys \<times> WriteSequence \<times> err option)" where
  "Put fs w k v now =
     (case Write fs (databaseFile w) (NewEntry k v PUT now) of
        Inl p \<Rightarrow> Inl p
      | Inr (fs', f', Inl e) \<Rightarrow> Inr (fs', w\<lparr>databaseFile := f'\<rparr>, Some e)
      | Inr (fs', f', Inr off) \<Rightarrow>
          Inr (fs', w\<lparr>databaseFile := f', index := AList.update k off (index w)\<rparr>, None))"

definition IsKeyExist :: "WriteSequence \<Rightarrow> bytes \<Rightarrow> int option" where
  "IsKeyExist w k = map_of (index w) k"

definition WriteSequence_Get :: "filesys \<Rightarrow> WriteSequence \<Rightarrow> bytes \<Rightarrow> err + bytes" where
  "WriteSequence_Get fs w k =
     (if length k = 0 then Inl KeyIsNil
      else
        (case IsKeyExist w k of
           None \<Rightarrow> Inl KeyNotExist
         | Some off \<Rightarrow>
             (case Read fs (databaseFile w) off of
                Inl e \<Rightarrow> Inl e
              | Inr entry \<Rightarrow> Inr (Value entry))))"

definition Delete ::
  "filesys \<Rightarrow> WriteSequence \<Rightarrow> bytes \<Rightarrow> int64 \<Rightarrow>
   panic + (filesys \<times> WriteSequence \<times> err option)" where
  "Delete fs w k now =
     (if length k = 0 then Inr (fs, w, Some KeyIsNil)
      else
        (case IsKeyExist w k of
           None \<Rightarrow> Inr (fs, w, None)
         | Some _ \<Rightarrow>
             (case Write fs (databaseFile w) (NewEntry k [] DEL now) of
                Inl p \<Rightarrow> Inl p
              | Inr (fs', f', Inl e) \<Rightarrow> Inr (fs', w\<lparr>databaseFile := f'\<rparr>, Some e)
              | Inr (fs', f', Inr off) \<Rightarrow>
                  Inr (fs', w\<lparr>databaseFile := f', index := AList.delete k (index w)\<rparr>, None))))"

text \<open>
  The body of \<open>w.index.Range(func(k, v any) bool {...})\<close> in \<open>Merge\<close>. The closure
  declares its own \<open>err\<close> with \<open>entry, err := w.databaseFile.Read(value)\<close>; the
  assignments \<open>err = fmt.Errorf(...)\<close> after a failed read or write set that inner
  variable and \<open>return false\<close> stops the iteration. The \<open>err\<close> of \<open>Merge\<close> itself is only
  assigned by the type-assertion branch, which the typed index never takes: it is the
  last component of the result, and it stays nil.
\<close>

fun merge_range ::
  "filesys \<Rightarrow> DatabaseFile \<Rightarrow> DatabaseFile \<Rightarrow> (bytes \<times> int) list \<Rightarrow> (bytes \<times> int) list \<Rightarrow>
   panic + (filesys \<times> DatabaseFile \<times> (bytes \<times> int) list \<times> err option)" where
  "merge_range fs df merge_file [] new_index = Inr (fs, merge_file, new_index, None)"
| "merge_range fs df merge_file ((k, v) # rest) new_index =
     (case Read fs df v of
        Inl e \<Rightarrow> Inr (fs, merge_file, new_index, None)
      | Inr entry \<Rightarrow>
          (case Write fs merge_file entry of
             Inl p \<Rightarrow> Inl p
           | Inr (fs', merge_file', Inl e) \<Rightarrow> Inr (fs', merge_file', new_index, None)
           | Inr (fs', merge_file', Inr new_offset) \<Rightarrow>
               merge_range fs' df merge_file' rest (AList.update k new_offset new_index)))"

text \<open>
  \<open>WriteSequence.Merge\<close>. The deferred \<open>os.Remove(merge_file.File.Name())\<close> runs at
  every return after the merge file was opened; the errors of \<open>Close\<close>, \<open>os.Rename\<close> and
  \<open>os.Remove\<close> are discarded as in the code.
\<close>

definition Merge ::
  "filesys \<Rightarrow> WriteSequence \<Rightarrow> panic + (filesys \<times> WriteSequence \<times> err option)" where
  "Merge fs w =
     (if IsOffsetEqual (databaseFile w) 0 then Inr (fs, w, None)
      else
        (case NewMergeFile fs (dataPath w) of
           Inl e \<Rightarrow> Inr (fs, w, Some e)
         | Inr (fs1, merge_file) \<Rightarrow>
             (case merge_range fs1 (databaseFile w) merge_file (index w) [] of
                Inl p \<Rightarrow> Inl p
              | Inr (fs2, merge_file', new_index, Some e) \<Rightarrow>
                  Inr (fst (os_Remove fs2 (fname (File merge_file'))), w, Some e)
              | Inr (fs2, merge_file', new_index, None) \<Rightarrow>
                  (let old = fst (DatabaseFile_Close (databaseFile w));
                       backup_file = Join (dataPath w) DataBackupFileName;
                       fs3 = fst (os_Rename fs2 (fname (File old)) backup_file);
                       merge_closed = fst (DatabaseFile_Close merge_file');
                       fs4 = fst (os_Rename fs3 (fname (File merge_closed)) (fname (File old)))
                   in
                   case NewDataFile fs4 (dataPath w) [] of
                     Inl e \<Rightarrow>
                       (let fs5 = fst (os_Rename fs4 backup_file (fname (File old))) in
                        Inr (fst (os_Remove fs5 (fname (File merge_closed))),
                             w\<lparr>databaseFile := old\<rparr>, Some e))
                   | Inr (fs5, new_file) \<Rightarrow>
                       (let fs6 = fst (os_Remove fs5 backup_file) in
                        Inr (fst (os_Remove fs6 (fname (File merge_closed))),
                             w\<lparr>databaseFile := new_file, index := new_index\<rparr>, None))))))"

definition GetAllIndexKeys :: "WriteSequence \<Rightarrow> bytes list" where
  "GetAllIndexKeys w = map fst (index w)"

definition WriteSequence_Close :: "WriteSequence \<Rightarrow> WriteSequence \<times> err option" where
  "WriteSequence_Close w =
     (w\<lparr>databaseFile := fst (DatabaseFile_Close (databaseFile w))\<rparr>,
      snd (DatabaseFile_Close (databaseFile w)))"

text \<open>Sequences of \<open>Put\<close> and \<open>Delete\<close> calls. A call that returns an error leaves the
  program running, so the sequence goes on; a panic ends it.\<close>

datatype ws_op = OpPut bytes bytes int64 | OpDelete bytes int64

fun ws_step ::
  "filesys \<times> WriteSequence \<Rightarrow> ws_op \<Rightarrow> panic + (filesys \<times> WriteSequence)" where
  "ws_step (fs, w) (OpPut k v now) = map_sum id (\<lambda>(fs', w', e). (fs', w')) (Put fs w k v now)"
| "ws_step (fs, w) (OpDelete k now) = map_sum id (\<lambda>(fs', w', e). (fs', w')) (Delete fs w k now)"

fun ws_run ::
  "filesys \<times> WriteSequence \<Rightarrow> ws_op list \<Rightarrow> panic + (filesys \<times> WriteSequence)" where
  "ws_run s [] = Inr s"
| "ws_run s (x # xs) = (case ws_step s x of Inl p \<Rightarrow> Inl p | Inr s' \<Rightarrow> ws_run s' xs)"

section \<open>The shard (type cache of package mycache)\<close>

text \<open>The conversions \<open>[]byte(key)\<close> and \<open>string(key)\<close> copy the bytes.\<close>

definition bytes_of_string :: "string \<Rightarrow> bytes" where
  "bytes_of_string s = map (\<lambda>c. of_nat (of_char c)) s"

definition string_of_bytes :: "bytes \<Rightarrow> string" where
  "string_of_bytes b = map (\<lambda>x. char_of (unat x)) b"

text \<open>
  The shard: the LRU (\<open>data\<close>, never nil: \<open>NewGroup\<close> sets it), the persistence flag and
  the write sequence, a pointer that may be nil. The lock and the fields that no code
  sets (\<open>groupName\<close>, \<open>persistencePath\<close>, ...) are left out. The operations work on the
  files and the shard.
\<close>

record cache =
  data :: Cache
  cacheBytes :: int64
  enablePersistence :: bool
  writeSequence :: "WriteSequence option"

text \<open>\<open>cache.init\<close>: every key of the index whose value can be read is added to the LRU.
  \<open>GetAllIndexKeys\<close> on a nil write sequence dereferences it.\<close>

fun init_keys :: "filesys \<Rightarrow> WriteSequence \<Rightarrow> Cache \<Rightarrow> bytes list \<Rightarrow> (panic + Cache) option" where
  "init_keys fs w c [] = Some (Inr c)"
| "init_keys fs w c (k # keys) =
     (case WriteSequence_Get fs w k of
        Inl e \<Rightarrow> init_keys fs w c keys
      | Inr val \<Rightarrow>
          (case Add c (string_of_bytes k) val of
             None \<Rightarrow> None
           | Some (Inl p) \<Rightarrow> Some (Inl p)
           | Some (Inr (c', ok)) \<Rightarrow> init_keys fs w c' keys))"

definition cache_init :: "filesys \<Rightarrow> cache \<Rightarrow> (panic + cache) option" where
  "cache_init fs c =
     (case writeSequence c of
        None \<Rightarrow> Some (Inl NilDereference)
      | Some w \<Rightarrow>
          map_option (map_sum id (\<lambda>d. c\<lparr>data := d\<rparr>))
            (init_keys fs w (data c) (GetAllIndexKeys w)))"

text \<open>\<open>cache.add\<close>: with persistence enabled and a write sequence present, the \<open>Put\<close>
  comes first and its error is returned before the LRU is touched.\<close>

definition lru_add ::
  "filesys \<Rightarrow> cache \<Rightarrow> string \<Rightarrow> bytes \<Rightarrow> (panic + (filesys \<times> cache \<times> err option)) option" where
  "lru_add fs c k val =
     map_option (map_sum id (\<lambda>(d, ok). (fs, c\<lparr>data := d\<rparr>, None))) (Add (data c) k val)"

definition cache_add ::
  "filesys \<Rightarrow> cache \<Rightarrow> string \<Rightarrow> bytes \<Rightarrow> int64 \<Rightarrow>
   (panic + (filesys \<times> cache \<times> err option)) option" where
  "cache_add fs c k val now =
     (if length k = 0 then Some (Inr (fs, c, None))
      else
        (case (if enablePersistence c then writeSequence c else None) of
           Some w \<Rightarrow>
             (case Put fs w (bytes_of_string k) val now of
                Inl p \<Rightarrow> Some (Inl p)
              | Inr (fs', w', Some e) \<Rightarrow> Some (Inr (fs', c\<lparr>writeSequence := Some w'\<rparr>, Some e))
              | Inr (fs', w', None) \<Rightarrow> lru_add fs' (c\<lparr>writeSequence := Some w'\<rparr>) k val)
         | None \<Rightarrow> lru_add fs c k val))"

definition cache_get :: "cache \<Rightarrow> string \<Rightarrow> panic + (cache \<times> bytes option)" where
  "cache_get c k =
     (case Get (data c) k of
        Inl p \<Rightarrow> Inl p
      | Inr (d, ans) \<Rightarrow> Inr (c\<lparr>data := d\<rparr>, ans))"

text \<open>
  \<open>cache.delete\<close> tests the persistence flag only. \<open>WriteSequence.Delete\<close> on a nil
  receiver returns its error for an empty key and dereferences the receiver
  (\<open>w.mutex.Lock()\<close>) for any other key.
\<close>

definition lru_Remove :: "filesys \<Rightarrow> cache \<Rightarrow> string \<Rightarrow> panic + (filesys \<times> cache \<times> err option)" where
  "lru_Remove fs c k = map_sum id (\<lambda>d. (fs, c\<lparr>data := d\<rparr>, None)) (Remove (data c) k)"

definition cache_delete ::
  "filesys \<Rightarrow> cache \<Rightarrow> string \<Rightarrow> int64 \<Rightarrow> panic + (filesys \<times> cache \<times> err option)" where
  "cache_delete fs c k now =
     (if enablePersistence c then
        (case writeSequence c of
           None \<Rightarrow>
             (if length (bytes_of_string k) = 0 then Inr (fs, c, Some KeyIsNil)
              else Inl NilDereference)
         | Some w \<Rightarrow>
             (case Delete fs w (bytes_of_string k) now of
                Inl p \<Rightarrow> Inl p
              | Inr (fs', w', Some e) \<Rightarrow> Inr (fs', c\<lparr>writeSequence := Some w'\<rparr>, Some e)
              | Inr (fs', w', None) \<Rightarrow> lru_Remove fs' (c\<lparr>writeSequence := Some w'\<rparr>) k))
      else lru_Remove fs c k)"

section \<open>The single-flight group with concurrent callers (package singleflight)\<close>

text \<open>
  \<open>GroupCall.Do\<close> under concurrent callers, as a transition system. Every goroutine
  \<open>t\<close> executes one call \<open>Do(key_of t, fn)\<close>; the state holds the map \<open>g.m\<close>
  (\<open>call_map\<close>, from keys to addresses of \<open>call\<close> records), for every record the
  counter of its \<open>wg\<close> and its fields \<open>val\<close> and \<open>err\<close> (\<open>results\<close>), the next unused
  address, and where each goroutine stands (\<open>pcs\<close>). \<open>invoked\<close> counts the runs of \<open>fn\<close>
  per call record. The goroutines interleave their steps; one step is what a goroutine
  does between two synchronisations (the sections under \<open>g.mu\<close>, \<open>c.wg.Done()\<close>, the
  return from \<open>c.wg.Wait()\<close>), and the fields of a call record are written by its creator
  before \<open>Done\<close> and read by the others after \<open>Wait\<close>.

  The positions of a goroutine in \<open>Do\<close>: before \<open>g.mu.Lock()\<close> (\<open>Start\<close>); at
  \<open>c.wg.Wait()\<close> for the call found in the map (\<open>Waiting\<close>); before
  \<open>c.val, c.err = fn()\<close> for the call it has registered (\<open>Calling\<close>); before
  \<open>c.wg.Done()\<close> (\<open>Signalling\<close>); before the second locked section with
  \<open>delete(g.m, key)\<close> (\<open>Deleting\<close>); before \<open>return c.val, c.err\<close> (\<open>Returning\<close>); and
  returned with a result (\<open>Finished\<close>).
\<close>

type_synonym result = "bytes \<times> err option"

datatype pc =
  Start | Waiting nat | Calling nat | Signalling nat | Deleting nat | Returning nat
  | Finished nat result

record flight =
  call_map :: "string \<rightharpoonup> nat"
  wg :: "nat \<Rightarrow> nat"
  results :: "nat \<Rightarrow> result"
  new_call :: nat
  pcs :: "nat \<Rightarrow> pc"
  key_of :: "nat \<Rightarrow> string"
  invoked :: "nat \<Rightarrow> nat"

text \<open>
  The steps of goroutine \<open>t\<close>. \<open>Enter\<close> is the first locked section: a call found under
  the key is waited for, otherwise a new call record is made (\<open>new(call)\<close>, with nil
  fields), its counter set to 1 and the record stored under the key. \<open>Wake\<close> is the
  return of \<open>c.wg.Wait()\<close>, possible when the counter is 0. \<open>RunFn t r\<close> is
  \<open>c.val, c.err = fn()\<close> where \<open>fn\<close> returns \<open>r\<close>. \<open>SignalDone\<close> is \<open>c.wg.Done()\<close>,
  which panics on a counter of 0. \<open>DeleteKey\<close> is the second locked section and
  \<open>Return\<close> reads the fields of the call record and returns them. A step that the
  goroutine cannot take is \<open>None\<close>.
\<close>

datatype action =
  Enter nat | Wake nat | RunFn nat result | SignalDone nat | DeleteKey nat | Return nat

definition do_step :: "flight \<Rightarrow> action \<Rightarrow> flight option" where
  "do_step s a =
     (case a of
        Enter t \<Rightarrow>
          (case pcs s t of
             Start \<Rightarrow>
               (case call_map s (key_of s t) of
                  Some c \<Rightarrow> Some (s\<lparr>pcs := (pcs s)(t := Waiting c)\<rparr>)
                | None \<Rightarrow>
                    Some (s\<lparr>call_map := (call_map s)(key_of s t \<mapsto> new_call s),
                           wg := (wg s)(new_call s := 1),
                           results := (results s)(new_call s := ([], None)),
                           new_call := Suc (new_call s),
                           pcs := (pcs s)(t := Calling (new_call s))\<rparr>))
           | _ \<Rightarrow> None)
      | Wake t \<Rightarrow>
          (case pcs s t of
             Waiting c \<Rightarrow>
               if wg s c = 0 then Some (s\<lparr>pcs := (pcs s)(t := Returning c)\<rparr>) else None
           | _ \<Rightarrow> None)
      | RunFn t r \<Rightarrow>
          (case pcs s t of
             Calling c \<Rightarrow>
               Some (s\<lparr>results := (results s)(c := r),
                      invoked := (invoked s)(c := Suc (invoked s c)),
                      pcs := (pcs s)(t := Signalling c)\<rparr>)
           | _ \<Rightarrow> None)
      | SignalDone t \<Rightarrow>
          (case pcs s t of
             Signalling c \<Rightarrow>
               if wg s c = 0 then None
               else Some (s\<lparr>wg := (wg s)(c := wg s c - 1), pcs := (pcs s)(t := Deleting c)\<rparr>)
           | _ \<Rightarrow> None)
      | DeleteKey t \<Rightarrow>
          (case pcs s t of
             Deleting c \<Rightarrow>
               Some (s\<lparr>call_map := (call_map s)(key_of s t := None),
                      pcs := (pcs s)(t := Returning c)\<rparr>)
           | _ \<Rightarrow> None)
      | Return t \<Rightarrow>
          (case pcs s t of
             Returning c \<Rightarrow> Some (s\<lparr>pcs := (pcs s)(t := Finished c (results s c))\<rparr>)
           | _ \<Rightarrow> None))"

text \<open>The start: an empty map, no call records, every goroutine about to call \<open>Do\<close>
  with its key. The reachable states are those that some interleaving of steps leads to,
  and \<open>do_run\<close> follows one given interleaving.\<close>

definition flight_init :: "(nat \<Rightarrow> string) \<Rightarrow> flight" where
  "flight_init keys =
     \<lparr>call_map = Map.empty, wg = (\<lambda>_. 0), results = (\<lambda>_. ([], None)), new_call = 0,
      pcs = (\<lambda>_. Start), key_of = keys, invoked = (\<lambda>_. 0)\<rparr>"

inductive reachable :: "(nat \<Rightarrow> string) \<Rightarrow> flight \<Rightarrow> bool" for keys where
  reachable_init: "reachable keys (flight_init keys)"
| reachable_step: "reachable keys s \<Longrightarrow> do_step s a = Some s' \<Longrightarrow> reachable keys s'"

fun do_run :: "flight \<Rightarrow> action list \<Rightarrow> flight option" where
  "do_run s [] = Some s"
| "do_run s (a # as) = (case do_step s a of None \<Rightarrow> None | Some s' \<Rightarrow> do_run s' as)"

text \<open>
  The invariant of the reachable states. \<open>call_of\<close> is the call record a goroutine is
  bound to, \<open>owner\<close> holds of the positions of a record's creator until it has removed
  the map entry, and \<open>phase_ok\<close> says what a position implies for the record: \<open>fn\<close>
  has not run and the counter is 1 before the call, \<open>fn\<close> has run once afterwards, and a
  returned result is the record's. A record has one creator, and while the creator has
  not removed the entry, the map holds the record under the creator's key.
\<close>

fun call_of :: "pc \<Rightarrow> nat option" where
  "call_of Start = None"
| "call_of (Waiting c) = Some c"
| "call_of (Calling c) = Some c"
| "call_of (Signalling c) = Some c"
| "call_of (Deleting c) = Some c"
| "call_of (Returning c) = Some c"
| "call_of (Finished c r) = Some c"

fun owner :: "pc \<Rightarrow> bool" where
  "owner (Calling c) = True"
| "owner (Signalling c) = True"
| "owner (Deleting c) = True"
| "owner p = False"

fun phase_ok :: "flight \<Rightarrow> pc \<Rightarrow> bool" where
  "phase_ok s Start = True"
| "phase_ok s (Waiting c) = True"
| "phase_ok s (Calling c) = (invoked s c = 0 \<and> wg s c = 1)"
| "phase_ok s (Signalling c) = (invoked s c = 1 \<and> wg s c = 1)"
| "phase_ok s (Deleting c) = (invoked s c = 1)"
| "phase_ok s (Returning c) = (invoked s c = 1)"
| "phase_ok s (Finished c r) = (invoked s c = 1 \<and> r = results s c)"

definition sf_inv :: "flight \<Rightarrow> bool" where
  "sf_inv s \<longleftrightarrow>
     (\<forall>c. invoked s c \<le> 1) \<and>
     (\<forall>c. new_call s \<le> c \<longrightarrow> invoked s c = 0) \<and>
     (\<forall>c. c < new_call s \<longrightarrow> wg s c = 0 \<longrightarrow> invoked s c = 1) \<and>
     (\<forall>t c. call_of (pcs s t) = Some c \<longrightarrow> c < new_call s) \<and>
     (\<forall>k c. call_map s k = Some c \<longrightarrow> c < new_call s) \<and>
     (\<forall>t t'. owner (pcs s t) \<longrightarrow> owner (pcs s t') \<longrightarrow>
        call_of (pcs s t) = call_of (pcs s t') \<longrightarrow> t = t') \<and>
     (\<forall>t. phase_ok s (pcs s t)) \<and>
     (\<forall>t c. owner (pcs s t) \<longrightarrow> call_of (pcs s t) = Some c \<longrightarrow>
        call_map s (key_of s t) = Some c)"

section \<open>The group (package mycache)\<close>

text \<open>
  The collaborators are functions: the getter maps a key to bytes or an error, a peer
  getter maps group name and key to the remote answer, and the peer picker maps a key to
  the peer that owns it, \<open>None\<close> when the key belongs to this node. \<open>peers\<close> is \<open>None\<close>
  while no picker is registered. One caller at a time goes through the group, so
  \<open>loader.Do(key, fn)\<close> finds no call in flight, calls \<open>fn\<close> and returns its result.
\<close>

type_synonym Getter = "string \<Rightarrow> err + bytes"
type_synonym PeerGetter = "string \<Rightarrow> string \<Rightarrow> err + bytes"
type_synonym PeerPicker = "string \<Rightarrow> PeerGetter option"

record Conf =
  Name :: string
  EnablePersistence :: bool
  PersistencePath :: string
  LoadPersistentFile :: bool
  FullPersistentFile :: string
  IncrPersistentFile :: string

record Group =
  name :: string
  getter :: Getter
  mainCache :: cache
  peers :: "PeerPicker option"
  fullPersistentFile :: string

text \<open>The \<open>Group\<close> value that \<open>NewGroup\<close> builds: a new LRU without eviction callback,
  the persistence flag of the configuration and the write sequence, nil or not.\<close>

definition group_value :: "Conf \<Rightarrow> int64 \<Rightarrow> Getter \<Rightarrow> WriteSequence option \<Rightarrow> Group" where
  "group_value conf cb g0 w =
     \<lparr>name = Name conf, getter = g0,
      mainCache = \<lparr>data = New cb False, cacheBytes = cb,
                   enablePersistence = EnablePersistence conf, writeSequence = w\<rparr>,
      peers = None, fullPersistentFile = FullPersistentFile conf\<rparr>"

text \<open>\<open>NewGroup\<close>, with the registry \<open>groups\<close> as part of the state. A nil getter and an
  empty name panic, and so does an error of \<open>NewWriteSequence\<close>. The registry holds a
  pointer to the group, so it sees what \<open>init\<close> does to the shard.\<close>

definition NewGroup ::
  "filesys \<Rightarrow> (string \<rightharpoonup> Group) \<Rightarrow> Conf \<Rightarrow> int64 \<Rightarrow> Getter option \<Rightarrow> int64 \<Rightarrow>
   (panic + (filesys \<times> (string \<rightharpoonup> Group) \<times> Group)) option" where
  "NewGroup fs groups conf cb gt now =
     (case gt of
        None \<Rightarrow> Some (Inl (PanicMessage ''nil Getter''))
      | Some g0 \<Rightarrow>
          if length (Name conf) = 0 then Some (Inl (PanicMessage ''name error''))
          else
            (case (if length (PersistencePath conf) > 0 \<and>
                      (EnablePersistence conf \<or> length (FullPersistentFile conf) > 0)
                   then map_option (map_sum id (\<lambda>(fs', w). (fs', Some w)))
                          (NewWriteSequence fs (Join (PersistencePath conf) (Name conf))
                             (FullPersistentFile conf) now)
                   else Some (Inr (fs, None))) of
               None \<Rightarrow> None
             | Some (Inl e) \<Rightarrow> Some (Inl (PanicError e))
             | Some (Inr (fs', w)) \<Rightarrow>
                 if length (FullPersistentFile conf) > 0 then
                   (case cache_init fs' (mainCache (group_value conf cb g0 w)) of
                      None \<Rightarrow> None
                    | Some (Inl p) \<Rightarrow> Some (Inl p)
                    | Some (Inr c) \<Rightarrow>
                        Some (Inr (fs',
                                   groups(Name conf \<mapsto> (group_value conf cb g0 w)\<lparr>mainCache := c\<rparr>),
                                   (group_value conf cb g0 w)\<lparr>mainCache := c\<rparr>)))
                 else
                   Some (Inr (fs', groups(Name conf \<mapsto> group_value conf cb g0 w),
                              group_value conf cb g0 w))))"

definition GetGroup :: "(string \<rightharpoonup> Group) \<Rightarrow> string \<Rightarrow> Group option" where
  "GetGroup groups nm = groups nm"

definition getFromPeer :: "Group \<Rightarrow> PeerGetter \<Rightarrow> string \<Rightarrow> err + bytes" where
  "getFromPeer g peer k = peer (name g) k"

text \<open>\<open>populateCache\<close> calls \<open>g.mainCache.add(key, value)\<close> and has no result: what
  \<open>add\<close> returns is dropped.\<close>

definition populateCache ::
  "filesys \<Rightarrow> Group \<Rightarrow> string \<Rightarrow> bytes \<Rightarrow> int64 \<Rightarrow> (panic + (filesys \<times> Group)) option" where
  "populateCache fs g k val now =
     map_option (map_sum id (\<lambda>(fs', c, e). (fs', g\<lparr>mainCache := c\<rparr>)))
       (cache_add fs (mainCache g) k val now)"

text \<open>The results of \<open>getLocally\<close>, \<open>load\<close> and \<open>Group.Get\<close> are the new state, the
  returned view (empty with an error) and the returned error.\<close>

definition getLocally ::
  "filesys \<Rightarrow> Group \<Rightarrow> string \<Rightarrow> int64 \<Rightarrow>
   (panic + (filesys \<times> Group \<times> bytes \<times> err option)) option" where
  "getLocally fs g k now =
     (case getter g k of
        Inl e \<Rightarrow> Some (Inr (fs, g, [], Some e))
      | Inr b \<Rightarrow>
          map_option (map_sum id (\<lambda>(fs', g'). (fs', g', b, None)))
            (populateCache fs g k b now))"

definition load ::
  "filesys \<Rightarrow> Group \<Rightarrow> string \<Rightarrow> int64 \<Rightarrow>
   (panic + (filesys \<times> Group \<times> bytes \<times> err option)) option" where
  "load fs g k now =
     (case peers g of
        Some pick \<Rightarrow>
          (case pick k of
             Some peer \<Rightarrow>
               (case getFromPeer g peer k of
                  Inr v \<Rightarrow> Some (Inr (fs, g, v, None))
                | Inl e \<Rightarrow> getLocally fs g k now)
           | None \<Rightarrow> getLocally fs g k now)
      | None \<Rightarrow> getLocally fs g k now)"

definition Group_Get ::
  "filesys \<Rightarrow> Group \<Rightarrow> string \<Rightarrow> int64 \<Rightarrow>
   (panic + (filesys \<times> Group \<times> bytes \<times> err option)) option" where
  "Group_Get fs g k now =
     (if k = [] then Some (Inr (fs, g, [], Some KeyIsRequired))
      else
        (case cache_get (mainCache g) k of
           Inl p \<Rightarrow> Some (Inl p)
         | Inr (c, Some v) \<Rightarrow> Some (Inr (fs, g\<lparr>mainCache := c\<rparr>, v, None))
         | Inr (c, None) \<Rightarrow> load fs (g\<lparr>mainCache := c\<rparr>) k now))"

text \<open>\<open>Group.Delete\<close> drops what \<open>g.mainCache.delete(key)\<close> returns.\<close>

definition Group_Delete ::
  "filesys \<Rightarrow> Group \<Rightarrow> string \<Rightarrow> int64 \<Rightarrow> panic + (filesys \<times> Group \<times> err option)" where
  "Group_Delete fs g k now =
     (if k = [] then Inr (fs, g, Some KeyIsRequired)
      else
        (case cache_delete fs (mainCache g) k now of
           Inl p \<Rightarrow> Inl p
         | Inr (fs', c, e) \<Rightarrow> Inr (fs', g\<lparr>mainCache := c\<rparr>, None)))"

section \<open>The HTTP handler for keys\<close>

text \<open>
  What \<open>ServeKey\<close> sends: the status code (200 when the handler writes a body or
  nothing at all, the code of \<open>http.Error\<close> otherwise) and the body. \<open>proto.Marshal\<close> of
  a \<open>KVResponse\<close> with the given value is the argument \<open>marshal\<close>, a function of the
  protobuf library.
\<close>

datatype body = NoBody | Text string | ErrorText err | Octets bytes

record response =
  status :: nat
  content :: body

definition ServeKey ::
  "(bytes \<Rightarrow> err + bytes) \<Rightarrow> filesys \<Rightarrow> (string \<rightharpoonup> Group) \<Rightarrow> string \<Rightarrow> string \<Rightarrow> string \<Rightarrow> int64 \<Rightarrow>
   (panic + (filesys \<times> (string \<rightharpoonup> Group) \<times> response)) option" where
  "ServeKey marshal fs groups method groupName k now =
     (case GetGroup groups groupName of
        None \<Rightarrow>
          Some (Inr (fs, groups, \<lparr>status = 404, content = Text (''no such group: '' @ groupName)\<rparr>))
      | Some g \<Rightarrow>
          if method = ''GET'' then
            (case Group_Get fs g k now of
               None \<Rightarrow> None
             | Some (Inl p) \<Rightarrow> Some (Inl p)
             | Some (Inr (fs', g', view, err1)) \<Rightarrow>
                 (case marshal view of
                    Inl e \<Rightarrow>
                      Some (Inr (fs', groups(groupName \<mapsto> g'),
                                 \<lparr>status = 500, content = ErrorText e\<rparr>))
                  | Inr b \<Rightarrow>
                      Some (Inr (fs', groups(groupName \<mapsto> g'),
                                 \<lparr>status = 200, content = Octets b\<rparr>))))
          else if method = ''DELETE'' then
            (case Group_Delete fs g k now of
               Inl p \<Rightarrow> Some (Inl p)
             | Inr (fs', g', Some e) \<Rightarrow>
                 Some (Inr (fs', groups(groupName \<mapsto> g'), \<lparr>status = 500, content = ErrorText e\<rparr>))
             | Inr (fs', g', None) \<Rightarrow>
                 Some (Inr (fs', groups(groupName \<mapsto> g'), \<lparr>status = 200, content = NoBody\<rparr>)))
          else Some (Inr (fs, groups, \<lparr>status = 200, content = NoBody\<rparr>)))"

text \<open>
  \<open>loads_locally g k\<close>: a load of \<open>k\<close> in \<open>g\<close> is served by the source loader, because
  no picker is registered, or the picker names no peer for \<open>k\<close>, or the fetch from the
  peer fails. \<open>nil_persistence c\<close>: the shard has its persistence flag set and a nil
  write sequence.
\<close>

definition loads_locally :: "Group \<Rightarrow> string \<Rightarrow> bool" where
  "loads_locally g k =
     (case peers g of
        None \<Rightarrow> True
      | Some pick \<Rightarrow> (case pick k of None \<Rightarrow> True | Some peer \<Rightarrow> isl (getFromPeer g peer k)))"

definition nil_persistence :: "cache \<Rightarrow> bool" where
  "nil_persistence c \<longleftrightarrow> enablePersistence c \<and> writeSequence c = None"

text \<open>
  The example of \<open>test/main.go\<close>: the source of truth is the table \<open>db\<close> with the scores
  of Tom (630), Jack (1589) and Sam (12567), and the group is called \<open>scores\<close>.
  \<open>broken_fs\<close> is an environment without files in which every read and write of file
  content fails.
\<close>

definition db_getter :: Getter where
  "db_getter k =
     (if k = ''Tom'' then Inr [54, 51, 48]
      else if k = ''Jack'' then Inr [49, 53, 56, 57]
      else if k = ''Sam'' then Inr [49, 50, 53, 54, 55]
      else Inl (SourceError (k @ '' not exist'')))"

definition scores_conf :: "bool \<Rightarrow> string \<Rightarrow> Conf" where
  "scores_conf persist path =
     \<lparr>Name = ''scores'', EnablePersistence = persist, PersistencePath = path,
      LoadPersistentFile = False, FullPersistentFile = [], IncrPersistentFile = []\<rparr>"

subsection \<open>The log as a list of records\<close>









text \<open>An environment with no files in which nothing fails.\<close>

definition empty_fs :: filesys where
  "empty_fs = \<lparr>dir = Map.empty, store = (\<lambda>_. []), next_inode = 0,
               deny_open = (\<lambda>_. False), io_error = (\<lambda>_. False)\<rparr>"

definition broken_fs :: filesys where
  "broken_fs = empty_fs\<lparr>io_error := (\<lambda>_. True)\<rparr>"

section \<open>Properties of the LRU core\<close>

lemma evict_loop_stop:
  "\<not> (0 <s maxBytes c \<and> maxBytes c <s nbytes c) \<Longrightarrow> evict_loop c = Some (Inr c)"
  by (subst evict_loop.simps) auto

lemma evict_loop_step:
  "0 <s maxBytes c \<Longrightarrow> maxBytes c <s nbytes c \<Longrightarrow>
   evict_loop c = (case RemoveOldest c of Inl e \<Rightarrow> Some (Inl e) | Inr c' \<Rightarrow> evict_loop c')"
  by (subst evict_loop.simps) simp

lemmas lru_defs =
  lru_step_def Add_def Remove_def RemoveOldest_def Get_def PushFront_def list_Remove_def
  MoveToFront_def call_OnEvicted_def New_def finish_Add_def Len_def
  evict_loop_stop evict_loop_step word_sless_alt

text \<open>
  Claim C1: after every sequence of \<open>Add\<close> and \<open>Remove\<close> calls the used-bytes counter
  equals the sum of \<open>len(key) + value.Len()\<close> over the stored entries, also after an
  \<open>Add\<close> of a key that is already present with a value of another length. The code
  breaks this: for a present key \<open>Add\<close> executes
  \<^verbatim>\<open>c.nbytes += temp.insideValue.Len() - val.Len()\<close>, old length minus new length.
  On an unbounded cache, adding key \<open>a\<close> with a value of one byte and then with a value
  of three bytes leaves the counter at 0 while the one stored entry holds 4 bytes.
\<close>

theorem nbytes_after_second_Add:
  "map_option (map_sum id (\<lambda>c. (nbytes c, stored_bytes c, map (elems c) (ll c))))
     (lru_run (New 0 False) [OpAdd ''a'' [1], OpAdd ''a'' [3, 3, 3]]) =
   Some (Inr (0, 4,
     [Some (ElementV 0), Some (EntryV \<lparr>key = ''a'', insideValue = [3, 3, 3]\<rparr>)]))"
  by (simp add: lru_defs stored_bytes_def entry_bytes_def)

text \<open>
  Claim C9: there are sequences of LRU operations in which \<open>Add\<close> is called with a key
  that is already present and a later eviction reaches the extra list element that this
  \<open>Add\<close> pushed to the front, and there the type assertion of \<open>RemoveOldest\<close> panics.
  This holds for every key and every two values on an unbounded cache once
  \<open>RemoveOldest\<close> is called twice, and it also happens through the eviction loop of
  \<open>Add\<close> itself on a cache of 10 bytes.
\<close>

theorem RemoveOldest_panics_after_second_Add:
  "lru_run (New 0 cb) [OpAdd k v1, OpAdd k v2, OpRemoveOldest, OpRemoveOldest] =
     Some (Inl TypeAssertion) \<and>
   lru_run (New 10 False)
     [OpAdd ''a'' [1], OpAdd ''a'' [1], OpAdd ''b'' [2, 2, 2, 2, 2, 2, 2, 2],
      OpAdd ''c'' [3, 3, 3, 3, 3, 3, 3, 3]] = Some (Inl TypeAssertion)"
  by (simp add: lru_defs Let_def)

section \<open>Properties of the record encoding\<close>

lemma Uint32_PutUint32: "Uint32 (PutUint32 v) = v"
proof (rule bit_word_eqI)
  fix n assume "n < LENGTH(32)"
  then have "n < 32" by simp
  then consider "n < 8" | "8 \<le> n" "n < 16" | "16 \<le> n" "n < 24" | "24 \<le> n" "n < 32"
    by linarith
  then show "bit (Uint32 (PutUint32 v)) n = bit v n"
    unfolding Uint32_def PutUint32_def by cases (auto simp add: bit_simps)
qed

lemma Uint64_PutUint64: "Uint64 (PutUint64 v) = v"
proof (rule bit_word_eqI)
  fix n assume "n < LENGTH(64)"
  then have "n < 64" by simp
  then consider "n < 8" | "8 \<le> n" "n < 16" | "16 \<le> n" "n < 24" | "24 \<le> n" "n < 32"
    | "32 \<le> n" "n < 40" | "40 \<le> n" "n < 48" | "48 \<le> n" "n < 56" | "56 \<le> n" "n < 64"
    by linarith
  then show "bit (Uint64 (PutUint64 v)) n = bit v n"
    unfolding Uint64_def PutUint64_def by cases (auto simp add: bit_simps)
qed

lemma length_PutUint32: "length (PutUint32 v) = 4"
  by (simp add: PutUint32_def)

lemma length_PutUint64: "length (PutUint64 v) = 8"
  by (simp add: PutUint64_def)

lemma length_copied: "length (copied n src) = n"
  by (simp add: copied_def)

lemma copied_exact: "length src = n \<Longrightarrow> copied n src = src"
  by (simp add: copied_def)

lemma unat_ucast_32_64: "unat (ucast (w :: 32 word) :: 64 word) = unat w"
proof -
  have "unat w < 2 ^ 32" using unsigned_less [of w] by simp
  then have "unat w < 2 ^ 64" by simp
  then show ?thesis by (simp add: unsigned_ucast_eq take_bit_nat_eq_self)
qed

lemma mod_no_wrap:
  fixes a b M :: nat
  assumes "b < M" "a \<le> (a + b) mod M"
  shows "(a + b) mod M = a + b"
proof (cases "a + b < M")
  case True
  then show ?thesis by simp
next
  case False
  then have "(a + b) mod M \<le> a + b - M"
    by (metis le_mod_geq linorder_not_less mod_less_eq_dividend)
  with assms False show ?thesis by linarith
qed

lemma unat32_less: "unat (w :: 32 word) < 4294967296"
  using unsigned_less [of w] by simp

text \<open>When \<open>Encode\<close> does not panic, none of its \<open>uint32\<close> sums has wrapped around.\<close>

lemma Encode_bounds:
  assumes "Encode e = Inr d"
  shows "unat (20 + KeySize e) = 20 + unat (KeySize e)"
    and "unat (Size e) = 20 + unat (KeySize e) + unat (ValueSize e)"
proof -
  let ?k = "unat (KeySize e)" and ?v = "unat (ValueSize e)"
  from assms have a: "20 \<le> unat (20 + KeySize e)" and b: "unat (20 + KeySize e) \<le> unat (Size e)"
    by (simp_all add: Encode_def Let_def HeaderSize_def split: if_splits)
  have ke: "unat (20 + KeySize e) = (20 + ?k) mod 4294967296"
    by (simp add: unat_word_ariths)
  show 1: "unat (20 + KeySize e) = 20 + ?k"
    using mod_no_wrap [of ?k 4294967296 20] a ke unat32_less [of "KeySize e"] by simp
  have "Size e = ucast ((20 + KeySize e) + ValueSize e)"
    by (simp add: Size_def add_ac)
  then have "unat (Size e) = unat ((20 + KeySize e) + ValueSize e)"
    by (simp add: unat_ucast_32_64)
  then have se: "unat (Size e) = (unat (20 + KeySize e) + ?v) mod 4294967296"
    by (simp add: unat_word_ariths(1) [of "20 + KeySize e" "ValueSize e"])
  show "unat (Size e) = 20 + ?k + ?v"
    using mod_no_wrap [of ?v 4294967296 "unat (20 + KeySize e)"] b se 1 unat32_less [of "ValueSize e"]
    by simp
qed

lemma Encode_eq:
  assumes "Encode e = Inr d"
  shows "d = PutUint32 (KeySize e) @ PutUint32 (ValueSize e) @ PutUint32 (Mark e) @
             PutUint64 (Timestamp e) @
             copied (unat (KeySize e)) (Key e) @ copied (unat (ValueSize e)) (Value e)"
proof -
  from assms have "d = PutUint32 (KeySize e) @ PutUint32 (ValueSize e) @ PutUint32 (Mark e) @
      PutUint64 (Timestamp e) @ copied (unat (20 + KeySize e) - HeaderSize) (Key e) @
      copied (unat (Size e) - unat (20 + KeySize e)) (Value e)"
    by (auto simp add: Encode_def Let_def split: if_splits)
  then show ?thesis
    using Encode_bounds [OF assms] by (simp add: HeaderSize_def)
qed

lemma length_Encode: "Encode e = Inr d \<Longrightarrow> length d = unat (Size e)"
  using Encode_eq [of e d] Encode_bounds(2) [of e d]
  by (simp add: length_PutUint32 length_PutUint64 length_copied)

lemma Decode_header:
  "Decode (PutUint32 ks @ PutUint32 vs @ PutUint32 m @ PutUint64 t @ rest) =
     Inr \<lparr>Key = [], Value = [], KeySize = ks, ValueSize = vs, Mark = m, Timestamp = t\<rparr>"
proof -
  let ?d = "PutUint32 ks @ PutUint32 vs @ PutUint32 m @ PutUint64 t @ rest"
  have 1: "byte_slice 0 4 ?d = PutUint32 ks"
    by (simp add: byte_slice_def length_PutUint32)
  have 2: "byte_slice 4 8 ?d = PutUint32 vs"
    by (simp add: byte_slice_def length_PutUint32)
  have 3: "byte_slice 8 12 ?d = PutUint32 m"
    by (simp add: byte_slice_def length_PutUint32)
  have 4: "byte_slice 12 HeaderSize ?d = PutUint64 t"
    by (simp add: byte_slice_def length_PutUint32 length_PutUint64 HeaderSize_def)
  have "\<not> length ?d < HeaderSize"
    by (simp add: length_PutUint32 length_PutUint64 HeaderSize_def)
  then show ?thesis
    unfolding Decode_def by (simp only: 1 2 3 4 Uint32_PutUint32 Uint64_PutUint64 if_False)
qed

lemma Decode_of_Encode:
  assumes "Encode e = Inr d"
  shows "Decode d = Inr (e\<lparr>Key := [], Value := []\<rparr>)"
proof -
  have "Decode d = Inr \<lparr>Key = [], Value = [], KeySize = KeySize e, ValueSize = ValueSize e,
      Mark = Mark e, Timestamp = Timestamp e\<rparr>"
    unfolding Encode_eq [OF assms] by (rule Decode_header)
  then show ?thesis by simp
qed

lemma payload_slices:
  assumes "Encode e = Inr d"
  shows "byte_slice HeaderSize (HeaderSize + unat (KeySize e)) d = copied (unat (KeySize e)) (Key e)"
    and "byte_slice (HeaderSize + unat (KeySize e)) (unat (Size e)) d =
           copied (unat (ValueSize e)) (Value e)"
proof -
  note d = Encode_eq [OF assms]
  show "byte_slice HeaderSize (HeaderSize + unat (KeySize e)) d = copied (unat (KeySize e)) (Key e)"
    unfolding d
    by (simp add: byte_slice_def HeaderSize_def length_PutUint32 length_PutUint64 length_copied)
  show "byte_slice (HeaderSize + unat (KeySize e)) (unat (Size e)) d =
      copied (unat (ValueSize e)) (Value e)"
    unfolding d using Encode_bounds(2) [OF assms]
    by (simp add: byte_slice_def HeaderSize_def length_PutUint32 length_PutUint64 length_copied)
qed

text \<open>
  Claim C5, as stated: decoding the bytes produced by \<open>Encode\<close> yields an entry whose
  header fields and whose key and value payloads equal those of the original record.
  It fails for the payloads: \<open>Decode\<close> reads the 20 header bytes only and returns an
  entry with nil \<open>Key\<close> and \<open>Value\<close>. For the record with key \<open>k\<close>, value \<open>v\<close>, mark PUT
  and timestamp 7 the decoded entry has the four header fields but neither payload.
\<close>

theorem Decode_drops_payloads:
  "Encode (NewEntry [107] [118] PUT 7) =
     Inr [0, 0, 0, 1, 0, 0, 0, 1, 0, 0, 0, 0, 0, 0, 0, 0, 0, 0, 0, 7, 107, 118] \<and>
   Decode [0, 0, 0, 1, 0, 0, 0, 1, 0, 0, 0, 0, 0, 0, 0, 0, 0, 0, 0, 7, 107, 118] =
     Inr \<lparr>Key = [], Value = [], KeySize = 1, ValueSize = 1, Mark = 0, Timestamp = 7\<rparr> \<and>
   Key (NewEntry [107] [118] PUT 7) = [107] \<and> Value (NewEntry [107] [118] PUT 7) = [118]"
  by (simp add: Encode_def Decode_def NewEntry_def Size_def PUT_def HeaderSize_def
      PutUint32_def PutUint64_def copied_def byte_slice_def Uint32_def Uint64_def)

text \<open>
  Claim C5, amended: for every record that \<open>Encode\<close> turns into bytes (it panics when
  key size + value size + 20 leaves the range of \<open>uint32\<close>), \<open>Decode\<close> of these bytes
  succeeds and yields the same key size, value size, mark and timestamp, hence the same
  total size, with empty \<open>Key\<close> and \<open>Value\<close>. The payloads are not decoded; they are the
  bytes of the encoding from 20 to 20 + key size and from there to the total size (where
  \<open>DatabaseFile.Read\<close> reads them), and these are the record's key and value whenever
  the size fields are the lengths of the key and of the value.
\<close>

theorem Decode_Encode_header:
  assumes "Encode e = Inr d"
  shows "(\<exists>e'. Decode d = Inr e' \<and> KeySize e' = KeySize e \<and> ValueSize e' = ValueSize e \<and>
              Mark e' = Mark e \<and> Timestamp e' = Timestamp e \<and> Size e' = Size e \<and>
              Key e' = [] \<and> Value e' = []) \<and>
         (length (Key e) = unat (KeySize e) \<longrightarrow>
            byte_slice HeaderSize (HeaderSize + unat (KeySize e)) d = Key e) \<and>
         (length (Value e) = unat (ValueSize e) \<longrightarrow>
            byte_slice (HeaderSize + unat (KeySize e)) (unat (Size e)) d = Value e)"
proof -
  have "Decode d = Inr (e\<lparr>Key := [], Value := []\<rparr>)"
    by (rule Decode_of_Encode [OF assms])
  then have 1: "\<exists>e'. Decode d = Inr e' \<and> KeySize e' = KeySize e \<and> ValueSize e' = ValueSize e \<and>
      Mark e' = Mark e \<and> Timestamp e' = Timestamp e \<and> Size e' = Size e \<and>
      Key e' = [] \<and> Value e' = []"
    by (simp add: Size_def)
  have 2: "length (Key e) = unat (KeySize e) \<longrightarrow>
      byte_slice HeaderSize (HeaderSize + unat (KeySize e)) d = Key e"
    by (simp add: payload_slices(1) [OF assms] copied_exact)
  have 3: "length (Value e) = unat (ValueSize e) \<longrightarrow>
      byte_slice (HeaderSize + unat (KeySize e)) (unat (Size e)) d = Value e"
    by (simp add: payload_slices(2) [OF assms] copied_exact)
  from 1 2 3 show ?thesis by blast
qed

theorem Decode_Encode_header_witness:
  "Encode (NewEntry [1, 2] [3] DEL 9) =
     Inr [0, 0, 0, 2, 0, 0, 0, 1, 0, 0, 0, 1, 0, 0, 0, 0, 0, 0, 0, 9, 1, 2, 3] \<and>
   (\<exists>e'. Decode [0, 0, 0, 2, 0, 0, 0, 1, 0, 0, 0, 1, 0, 0, 0, 0, 0, 0, 0, 9, 1, 2, 3] = Inr e' \<and>
      KeySize e' = 2 \<and> ValueSize e' = 1 \<and> Mark e' = DEL \<and> Timestamp e' = 9 \<and>
      Key e' = [] \<and> Value e' = []) \<and>
   byte_slice HeaderSize (HeaderSize + 2)
     [0, 0, 0, 2, 0, 0, 0, 1, 0, 0, 0, 1, 0, 0, 0, 0, 0, 0, 0, 9, 1, 2, 3] = [1, 2]"
proof -
  have enc: "Encode (NewEntry [1, 2] [3] DEL 9) =
      Inr [0, 0, 0, 2, 0, 0, 0, 1, 0, 0, 0, 1, 0, 0, 0, 0, 0, 0, 0, 9, 1, 2, 3]"
    by (simp add: Encode_def NewEntry_def Size_def DEL_def HeaderSize_def
        PutUint32_def PutUint64_def copied_def)
  show ?thesis
    using Decode_Encode_header [OF enc] enc by (auto simp add: NewEntry_def)
qed

section \<open>Properties of the data file\<close>

lemma slice_write_bytes: "byte_slice off (off + length b) (write_bytes c b off) = b"
  by (simp add: byte_slice_def write_bytes_def)


lemma Encode_nonempty: "Encode e = Inr d \<Longrightarrow> d \<noteq> []"
  using length_Encode [of e d] Encode_bounds(2) [of e d] by auto

lemma Write_success:
  assumes "Write fs f e = Inr (fs', f', Inr r)"
  shows "\<exists>d. Encode e = Inr d \<and> r = offset f \<and> 0 \<le> offset f \<and>
             f' = f\<lparr>offset := offset f + int (unat (Size e))\<rparr> \<and>
             fs' = fs\<lparr>store := (store fs)(inode (File f) :=
                      write_bytes (store fs (inode (File f))) d (nat (offset f)))\<rparr> \<and>
             \<not> closed (File f) \<and> \<not> io_error fs (inode (File f))"
proof (cases "Encode e")
  case (Inl p)
  with assms show ?thesis by (simp add: Write_def)
next
  case (Inr d)
  then have "d \<noteq> []" by (rule Encode_nonempty)
  with assms Inr show ?thesis
    by (auto simp add: Write_def Let_def GetOffset_def AddOffset_def WriteAt_def
        split: if_splits sum.splits)
qed


text \<open>
  Claim C4, as stated: \<open>DatabaseFile.Write\<close> writes at the file's current offset,
  advances the offset by the record's encoded size and returns the offset after the
  bump. The returned value is not the post-bump offset: the code reads the offset
  before the write (\<open>offset := f.GetOffset()\<close>) and returns that. Writing a record of 22
  bytes to a new, empty data file moves the offset from 0 to 22 and returns 0.
\<close>

theorem Write_returns_offset_before_bump:
  "map_sum id
     (\<lambda>(fs1, f1). map_sum id (\<lambda>(fs2, f2, r). (offset f1, offset f2, r))
        (Write fs1 f1 (NewEntry [107] [118] PUT 7)))
     (NewDataFile empty_fs ''d'' []) = Inr (Inr (0, 22, Inr 0))"
  by (simp add: empty_fs_def NewDataFile_def new_def OpenFile_def os_Stat_def Join_def
      DataFileName_def Write_def Encode_def NewEntry_def Size_def PUT_def HeaderSize_def
      PutUint32_def PutUint64_def copied_def GetOffset_def AddOffset_def WriteAt_def)

text \<open>
  Claim C4, amended: for every entry appended via \<open>DatabaseFile.Write\<close> (a call that
  returns no error), the encoded record lands at the file's current offset, leaving the
  bytes before it as they were, the offset is then advanced by the record's encoded
  size, and the value returned to the caller is the offset before the bump, that is the
  offset at which the record starts.
\<close>

theorem Write_returns_record_offset:
  assumes "Write fs f e = Inr (fs', f', Inr r)"
  shows "r = offset f \<and> offset f' = offset f + int (unat (Size e)) \<and>
         Encode e = Inr (byte_slice (nat (offset f)) (nat (offset f) + unat (Size e))
                          (store fs' (inode (File f)))) \<and>
         take (nat (offset f)) (store fs' (inode (File f))) =
           take (nat (offset f)) (store fs (inode (File f)) @
             replicate (nat (offset f) - length (store fs (inode (File f)))) 0)"
proof -
  from Write_success [OF assms] obtain d where d: "Encode e = Inr d"
    and r: "r = offset f" and f': "f' = f\<lparr>offset := offset f + int (unat (Size e))\<rparr>"
    and fs': "fs' = fs\<lparr>store := (store fs)(inode (File f) :=
                write_bytes (store fs (inode (File f))) d (nat (offset f)))\<rparr>"
    by blast
  have len: "length d = unat (Size e)" by (rule length_Encode [OF d])
  have "byte_slice (nat (offset f)) (nat (offset f) + unat (Size e)) (store fs' (inode (File f))) = d"
    using slice_write_bytes [of "nat (offset f)" d "store fs (inode (File f))"]
    by (simp add: fs' len)
  moreover have "take (nat (offset f)) (store fs' (inode (File f))) =
           take (nat (offset f)) (store fs (inode (File f)) @
             replicate (nat (offset f) - length (store fs (inode (File f)))) 0)"
    by (simp add: fs' write_bytes_def)
  ultimately show ?thesis using d r f' by simp
qed

theorem Write_returns_record_offset_witness:
  "\<exists>fs' f' r.
     Write (empty_fs\<lparr>store := (\<lambda>_. [9, 9, 9])\<rparr>)
       \<lparr>File = \<lparr>fname = ''d/append.data'', inode = 0, closed = False\<rparr>, offset = 3\<rparr>
       (NewEntry [107] [118] PUT 7) = Inr (fs', f', Inr r) \<and>
     r = 3 \<and> offset f' = 25 \<and> take 3 (store fs' 0) = [9, 9, 9]"
proof -
  let ?fs = "empty_fs\<lparr>store := (\<lambda>_. [9, 9, 9])\<rparr>"
  let ?f = "\<lparr>File = \<lparr>fname = ''d/append.data'', inode = 0, closed = False\<rparr>, offset = 3\<rparr>"
  let ?e = "NewEntry [107] [118] PUT 7"
  have "\<exists>fs' f' r. Write ?fs ?f ?e = Inr (fs', f', Inr r)"
    by (simp add: empty_fs_def Write_def Encode_def NewEntry_def Size_def PUT_def HeaderSize_def
        PutUint32_def PutUint64_def copied_def GetOffset_def AddOffset_def WriteAt_def)
  then obtain fs' f' r where w: "Write ?fs ?f ?e = Inr (fs', f', Inr r)" by blast
  have sz: "unat (Size ?e) = 22" by (simp add: Size_def NewEntry_def)
  from Write_returns_record_offset [OF w]
  have "r = 3 \<and> offset f' = 25 \<and> take 3 (store fs' 0) = [9, 9, 9]"
    by (simp add: sz empty_fs_def)
  with w show ?thesis by blast
qed

section \<open>Replaying a log\<close>






















lemma loadIndex_loop_stop:
  "IsOffsetEqual f off \<Longrightarrow> loadIndex_loop fs f idx off = Some (Inr idx)"
  by (subst loadIndex_loop.simps) simp

lemma loadIndex_loop_step:
  "\<not> IsOffsetEqual f off \<Longrightarrow>
   loadIndex_loop fs f idx off =
     (case Read fs f off of
        Inl e \<Rightarrow> (if e = EOF then Some (Inr idx) else Some (Inl e))
      | Inr entry \<Rightarrow>
          loadIndex_loop fs f
            (if Mark entry = DEL then AList.delete (Key entry) idx
             else AList.update (Key entry) off idx)
            (off + int (unat (Size entry))))"
  by (subst loadIndex_loop.simps) simp

lemmas ws_defs =
  NewWriteSequence_def seed_data_file_def NewDataFile_def new_def OpenFile_def os_Stat_def
  Join_def DataFileName_def loadIndex_def IsOffsetEqual_def Put_def Delete_def IsKeyExist_def
  Write_def Encode_def NewEntry_def Size_def PUT_def DEL_def HeaderSize_def PutUint32_def
  PutUint64_def copied_def GetOffset_def AddOffset_def WriteAt_def write_bytes_def Read_def
  ReadAt_def Decode_def byte_slice_def Uint32_def Uint64_def empty_fs_def
  loadIndex_loop_stop loadIndex_loop_step








section \<open>Properties of compaction\<close>

lemmas merge_defs =
  Merge_def NewMergeFile_def MergeFileName_def DataBackupFileName_def DatabaseFile_Close_def
  file_Close_def os_Rename_def os_Remove_def WriteSequence_Get_def

text \<open>A compaction without failures: after the four operations of the replay scenario
  the merged file holds the two live records, the backup name is gone and both keys
  read back their last values.\<close>

lemma Merge_keeps_live_records:
  "(case NewWriteSequence empty_fs ''d'' [] 0 of
      Some (Inr (fs1, w1)) \<Rightarrow>
        (case ws_run (fs1, w1)
                [OpPut [120] [49] 1, OpPut [121] [50] 2, OpDelete [120] 3, OpPut [120] [51] 4] of
           Inr (fs2, w2) \<Rightarrow>
             map_sum id
               (\<lambda>(fs3, w3, e3).
                  (index w2, e3, index w3, length (store fs3 (inode (File (databaseFile w3)))),
                   dir fs3 (Join ''d'' DataBackupFileName),
                   WriteSequence_Get fs3 w3 [120], WriteSequence_Get fs3 w3 [121]))
               (Merge fs2 w2)
         | Inl p \<Rightarrow> Inl p)
    | _ \<Rightarrow> Inl NilDereference) =
   Inr ([([121], 22), ([120], 65)], None, [([121], 0), ([120], 22)], 44, None, Inr [51], Inr [50])"
  by (simp add: ws_defs merge_defs)

text \<open>
  Claim C2: when reading or re-appending an indexed record fails during compaction,
  \<open>Merge\<close> returns a non-nil error and does not replace the active data file or the
  index with the partially written merge results. The code breaks this. The closure
  passed to \<open>Range\<close> declares its own \<open>err\<close> (\<open>entry, err := w.databaseFile.Read(value)\<close>),
  so the error it sets is not the one \<open>Merge\<close> tests after the iteration, and \<open>Merge\<close>
  goes on to rotate the files. Here a write sequence holds one record for key \<open>k\<close> at
  offset 0 and the data file then starts to fail with input/output errors: \<open>Merge\<close>
  returns nil, the index is empty, the active data file is the empty merge file, and
  the backup of the old file has been removed.
\<close>

theorem Merge_swallows_read_error:
  "(case NewWriteSequence empty_fs ''d'' [] 0 of
      Some (Inr (fs1, w1)) \<Rightarrow>
        (case Put fs1 w1 [107] [118] 1 of
           Inr (fs2, w2, e2) \<Rightarrow>
             map_sum id
               (\<lambda>(fs3, w3, e3).
                  (index w2, e3, index w3, store fs3 (inode (File (databaseFile w3))),
                   dir fs3 (Join ''d'' DataBackupFileName)))
               (Merge (fs2\<lparr>io_error := (\<lambda>i. i = inode (File (databaseFile w2)))\<rparr>) w2)
         | Inl p \<Rightarrow> Inl p)
    | _ \<Rightarrow> Inl NilDereference) =
   Inr ([([107], 0)], None, [], [], None)"
  by (simp add: ws_defs merge_defs)

section \<open>Properties of the group and of the handler\<close>

lemmas group_defs =
  NewGroup_def group_value_def scores_conf_def db_getter_def Group_Get_def cache_get_def load_def
  getLocally_def populateCache_def cache_add_def lru_add_def Group_Delete_def cache_delete_def
  lru_Remove_def ServeKey_def GetGroup_def bytes_of_string_def broken_fs_def getFromPeer_def
  loads_locally_def nil_persistence_def


lemma lru_add_Inr:
  assumes "lru_add fs c k v = Some (Inr (fs', c', e))"
  shows "\<exists>d. fs' = fs \<and> c' = c\<lparr>data := d\<rparr> \<and> e = None"
proof -
  from assms obtain z where z: "Add (data c) k v = Some z"
    and m: "map_sum id (\<lambda>(d, ok). (fs, c\<lparr>data := d\<rparr>, None :: err option)) z = Inr (fs', c', e)"
    by (auto simp add: lru_add_def)
  from m show ?thesis by (cases z) (auto split: prod.splits)
qed





lemma lru_add_fs:
  assumes "lru_add fs c k v = Some (Inr (fs', c', e))"
  shows "fs' = fs \<and> e = None \<and> enablePersistence c' = enablePersistence c \<and>
         writeSequence c' = writeSequence c"
  using lru_add_Inr [OF assms] by auto

lemma cache_add_nil:
  "nil_persistence c \<Longrightarrow>
   cache_add fs c k v now = (if k = [] then Some (Inr (fs, c, None)) else lru_add fs c k v)"
  by (simp add: cache_add_def nil_persistence_def)

lemma populateCache_Inr:
  assumes "populateCache fs g k v now = Some (Inr (fs1, g1))"
  shows "\<exists>c1 e. cache_add fs (mainCache g) k v now = Some (Inr (fs1, c1, e)) \<and>
                g1 = g\<lparr>mainCache := c1\<rparr>"
proof -
  from assms obtain y where y: "cache_add fs (mainCache g) k v now = Some y"
    and m: "map_sum id (\<lambda>(fs', c, e). (fs', g\<lparr>mainCache := c\<rparr>)) y = Inr (fs1, g1)"
    by (auto simp add: populateCache_def)
  from m y show ?thesis by (cases y) (auto split: prod.splits)
qed

lemma getLocally_Inr:
  assumes "getLocally fs g k now = Some (Inr (fs1, g1, v1, e1))"
  shows "(\<exists>e. getter g k = Inl e \<and> fs1 = fs \<and> g1 = g) \<or>
         (getter g k = Inr v1 \<and> populateCache fs g k v1 now = Some (Inr (fs1, g1)))"
proof (cases "getter g k")
  case (Inl e)
  with assms show ?thesis by (simp add: getLocally_def)
next
  case (Inr b)
  with assms obtain z where z: "populateCache fs g k b now = Some z"
    and m: "map_sum id (\<lambda>(fs', g'). (fs', g', b, None :: err option)) z = Inr (fs1, g1, v1, e1)"
    by (auto simp add: getLocally_def)
  from m z Inr show ?thesis by (cases z) (auto split: prod.splits)
qed

lemma getLocally_nil:
  assumes np: "nil_persistence (mainCache g)"
    and gl: "getLocally fs g k now = Some (Inr (fs1, g1, v1, e1))"
  shows "fs1 = fs \<and> nil_persistence (mainCache g1)"
  using getLocally_Inr [OF gl]
proof
  assume "\<exists>e. getter g k = Inl e \<and> fs1 = fs \<and> g1 = g"
  with np show ?thesis by auto
next
  assume "getter g k = Inr v1 \<and> populateCache fs g k v1 now = Some (Inr (fs1, g1))"
  then obtain c1 e where ca: "cache_add fs (mainCache g) k v1 now = Some (Inr (fs1, c1, e))"
    and g1: "g1 = g\<lparr>mainCache := c1\<rparr>"
    using populateCache_Inr by blast
  show ?thesis
  proof (cases "k = []")
    case True
    with ca np g1 show ?thesis by (simp add: cache_add_nil [OF np])
  next
    case False
    with ca have "lru_add fs (mainCache g) k v1 = Some (Inr (fs1, c1, e))"
      by (simp add: cache_add_nil [OF np])
    from lru_add_fs [OF this] np g1 show ?thesis by (simp add: nil_persistence_def)
  qed
qed

lemma Group_Get_nil:
  assumes np: "nil_persistence (mainCache g)"
    and get: "Group_Get fs g k now = Some (Inr (fs', g', v, e))"
  shows "fs' = fs \<and> nil_persistence (mainCache g')"
proof (cases "k = []")
  case True
  with get np show ?thesis by (simp add: Group_Get_def)
next
  case False
  show ?thesis
  proof (cases "cache_get (mainCache g) k")
    case (Inl p)
    with get False show ?thesis by (simp add: Group_Get_def)
  next
    case (Inr r)
    obtain c ans where r: "r = (c, ans)" by (cases r)
    from Inr r np have npc: "nil_persistence c"
      by (auto simp add: cache_get_def nil_persistence_def split: sum.splits prod.splits)
    show ?thesis
    proof (cases ans)
      case (Some x)
      with get False Inr r npc show ?thesis by (auto simp add: Group_Get_def)
    next
      case None
      let ?g = "g\<lparr>mainCache := c\<rparr>"
      have npg: "nil_persistence (mainCache ?g)" using npc by simp
      from get False Inr r None have ld: "load fs ?g k now = Some (Inr (fs', g', v, e))"
        by (simp add: Group_Get_def)
      then have "getLocally fs ?g k now = Some (Inr (fs', g', v, e)) \<or> (fs' = fs \<and> g' = ?g)"
        by (auto simp add: load_def split: option.splits sum.splits)
      then show ?thesis
        using getLocally_nil [OF npg] npg by blast
    qed
  qed
qed

text \<open>
  Claim C10, as stated: for a group constructed with \<open>EnablePersistence\<close> true and an
  empty \<open>PersistencePath\<close> the write sequence is nil while the persistence flag is set,
  \<open>Group.Get\<close> and \<open>add\<close> skip persistence, and any \<open>Group.Delete\<close> dereferences the
  nil write sequence and panics instead of returning an error. The last part fails for
  the empty key, which \<open>Group.Delete\<close> rejects with its error before it reaches the
  shard; the same group panics for the key Tom.
\<close>

theorem Delete_of_empty_key_returns_error:
  "(case NewGroup empty_fs Map.empty (scores_conf True []) 2048 (Some db_getter) 0 of
      Some (Inr (fs, groups, g)) \<Rightarrow>
        Some (enablePersistence (mainCache g), writeSequence (mainCache g),
              map_sum id (\<lambda>(fs', g', e). e) (Group_Delete fs g [] 1),
              map_sum id (\<lambda>(fs', g', e). e) (Group_Delete fs g ''Tom'' 1))
    | _ \<Rightarrow> None) =
   Some (True, None, Inr (Some KeyIsRequired), Inl NilDereference)"
  by (simp add: group_defs lru_defs ws_defs)

text \<open>
  Claim C10, amended: for every group constructed with \<open>EnablePersistence\<close> true and an
  empty \<open>PersistencePath\<close>, the shard's write sequence is nil while its persistence flag
  is set; \<open>add\<close> then is the LRU \<open>Add\<close> alone and \<open>Group.Get\<close> leaves the files
  untouched and the shard in that state; every \<open>Group.Delete\<close> with a non-empty key
  dereferences the nil write sequence and panics instead of returning an error, and
  \<open>Group.Delete\<close> with the empty key returns the key-required error.
\<close>

theorem nil_write_sequence_group:
  assumes "NewGroup fs0 groups conf cb gt t0 = Some (Inr (fs1, groups1, g))"
    and "EnablePersistence conf" and "PersistencePath conf = []"
  shows "nil_persistence (mainCache g) \<and>
         (\<forall>fs k v now. cache_add fs (mainCache g) k v now =
            (if k = [] then Some (Inr (fs, mainCache g, None)) else lru_add fs (mainCache g) k v)) \<and>
         (\<forall>fs k now fs' g' v e. Group_Get fs g k now = Some (Inr (fs', g', v, e)) \<longrightarrow>
            fs' = fs \<and> nil_persistence (mainCache g')) \<and>
         (\<forall>fs k now. k \<noteq> [] \<longrightarrow> Group_Delete fs g k now = Inl NilDereference) \<and>
         (\<forall>fs now. Group_Delete fs g [] now = Inr (fs, g, Some KeyIsRequired))"
proof -
  from assms have np: "nil_persistence (mainCache g)"
    by (auto simp add: NewGroup_def group_value_def nil_persistence_def cache_init_def
        split: option.splits if_splits sum.splits)
  have del: "k \<noteq> [] \<Longrightarrow> Group_Delete fs g k now = Inl NilDereference" for fs k now
    using np by (simp add: Group_Delete_def cache_delete_def nil_persistence_def bytes_of_string_def)
  have del0: "Group_Delete fs g [] now = Inr (fs, g, Some KeyIsRequired)" for fs now
    by (simp add: Group_Delete_def)
  from np del del0 cache_add_nil [OF np] Group_Get_nil [OF np] show ?thesis by blast
qed


theorem nil_write_sequence_group_witness:
  "\<exists>fs groups g.
     NewGroup empty_fs Map.empty (scores_conf True []) 2048 (Some db_getter) 0 =
       Some (Inr (fs, groups, g)) \<and>
     nil_persistence (mainCache g) \<and> Group_Delete fs g ''Tom'' 1 = Inl NilDereference"
proof -
  have "\<exists>fs groups g.
      NewGroup empty_fs Map.empty (scores_conf True []) 2048 (Some db_getter) 0 =
        Some (Inr (fs, groups, g))"
    by (simp add: group_defs lru_defs ws_defs)
  then obtain fs groups g
    where ng: "NewGroup empty_fs Map.empty (scores_conf True []) 2048 (Some db_getter) 0 =
        Some (Inr (fs, groups, g))"
    by blast
  have ep: "EnablePersistence (scores_conf True [])" and pp: "PersistencePath (scores_conf True []) = []"
    by (simp_all add: scores_conf_def)
  have ne: "''Tom'' \<noteq> []" by simp
  note t = nil_write_sequence_group [OF ng ep pp]
  have np: "nil_persistence (mainCache g)"
    by (rule t [THEN conjunct1])
  have "\<forall>fs k now. k \<noteq> [] \<longrightarrow> Group_Delete fs g k now = Inl NilDereference"
    by (rule t [THEN conjunct2, THEN conjunct2, THEN conjunct2, THEN conjunct1])
  then have "''Tom'' \<noteq> [] \<longrightarrow> Group_Delete fs g ''Tom'' 1 = Inl NilDereference"
    by (elim allE)
  with ne have del: "Group_Delete fs g ''Tom'' 1 = Inl NilDereference"
    by (rule_tac mp)
  show ?thesis
    by (intro exI conjI) (rule ng, rule np, rule del)
qed

text \<open>
  Claim C8: a GET for a key of a registered group for which both the cache probe and
  the source loader fail is answered with status 500, never with a 200 response that
  carries an empty value. The code breaks this: \<open>ServeKey\<close> assigns the error of
  \<open>group.Get\<close> to \<open>err\<close> and overwrites it with the result of \<open>proto.Marshal\<close> before any
  test. For the scores group and the key Kate, which the loader does not know,
  \<open>Group.Get\<close> returns an error and the empty view, and the response is whatever
  marshalling the empty value gives: status 200 with that body when \<open>proto.Marshal\<close>
  succeeds.
\<close>

theorem ServeKey_ignores_Get_error:
  "(case NewGroup empty_fs Map.empty (scores_conf False []) 2048 (Some db_getter) 0 of
      Some (Inr (fs, groups, g)) \<Rightarrow>
        (map_option (map_sum id (\<lambda>(fs', g', v, e). (v, e))) (Group_Get fs g ''Kate'' 1),
         map_option (map_sum id (\<lambda>(fs', groups', r). r))
           (ServeKey marshal fs groups ''GET'' ''scores'' ''Kate'' 1))
    | _ \<Rightarrow> (None, None)) =
   (Some (Inr ([], Some (SourceError ''Kate not exist''))),
    Some (Inr (case marshal [] of
                 Inl e \<Rightarrow> \<lparr>status = 500, content = ErrorText e\<rparr>
               | Inr b \<Rightarrow> \<lparr>status = 200, content = Octets b\<rparr>)))"
  by (cases "marshal []") (simp_all add: group_defs lru_defs ws_defs)

section \<open>Properties of the single-flight group\<close>

lemma sf_invI:
  assumes "\<And>c. invoked s c \<le> 1"
    and "\<And>c. new_call s \<le> c \<Longrightarrow> invoked s c = 0"
    and "\<And>c. c < new_call s \<Longrightarrow> wg s c = 0 \<Longrightarrow> invoked s c = 1"
    and "\<And>t c. call_of (pcs s t) = Some c \<Longrightarrow> c < new_call s"
    and "\<And>k c. call_map s k = Some c \<Longrightarrow> c < new_call s"
    and "\<And>t t'. owner (pcs s t) \<Longrightarrow> owner (pcs s t') \<Longrightarrow>
        call_of (pcs s t) = call_of (pcs s t') \<Longrightarrow> t = t'"
    and "\<And>t. phase_ok s (pcs s t)"
    and "\<And>t c. owner (pcs s t) \<Longrightarrow> call_of (pcs s t) = Some c \<Longrightarrow>
        call_map s (key_of s t) = Some c"
  shows "sf_inv s"
  unfolding sf_inv_def using assms by blast

lemma sf_invD:
  assumes "sf_inv s"
  shows "invoked s c \<le> 1"
    and "new_call s \<le> c \<Longrightarrow> invoked s c = 0"
    and "c < new_call s \<Longrightarrow> wg s c = 0 \<Longrightarrow> invoked s c = 1"
    and "call_of (pcs s t) = Some c \<Longrightarrow> c < new_call s"
    and "call_map s k = Some c \<Longrightarrow> c < new_call s"
    and "owner (pcs s t) \<Longrightarrow> owner (pcs s t') \<Longrightarrow>
        call_of (pcs s t) = call_of (pcs s t') \<Longrightarrow> t = t'"
    and "phase_ok s (pcs s t)"
    and "owner (pcs s t) \<Longrightarrow> call_of (pcs s t) = Some c \<Longrightarrow>
        call_map s (key_of s t) = Some c"
  using assms unfolding sf_inv_def by blast+

lemma inv_init: "sf_inv (flight_init keys)"
  by (rule sf_invI) (simp_all add: flight_init_def)

text \<open>Steps that move one goroutine and leave the calls as they are.\<close>

lemma phase_ok_pcs_update [simp]: "phase_ok (s\<lparr>pcs := f\<rparr>) p = phase_ok s p"
  by (cases p) simp_all

lemma phase_ok_map_update [simp]: "phase_ok (s\<lparr>call_map := f\<rparr>) p = phase_ok s p"
  by (cases p) simp_all

lemma inv_move:
  assumes inv: "sf_inv s"
    and new: "\<not> owner p" "phase_ok s p" "\<And>c. call_of p = Some c \<Longrightarrow> c < new_call s"
  shows "sf_inv (s\<lparr>pcs := (pcs s)(t := p)\<rparr>)"
proof (rule sf_invI)
  let ?s = "s\<lparr>pcs := (pcs s)(t := p)\<rparr>"
  fix c show "invoked ?s c \<le> 1" using sf_invD(1) [OF inv] by simp
  show "new_call ?s \<le> c \<Longrightarrow> invoked ?s c = 0" using sf_invD(2) [OF inv] by simp
  show "c < new_call ?s \<Longrightarrow> wg ?s c = 0 \<Longrightarrow> invoked ?s c = 1" using sf_invD(3) [OF inv] by simp
  fix t' show "call_of (pcs ?s t') = Some c \<Longrightarrow> c < new_call ?s"
    using sf_invD(4) [OF inv, of t' c] new(3) [of c]
    by (cases "t' = t") auto
  fix k show "call_map ?s k = Some c \<Longrightarrow> c < new_call ?s" using sf_invD(5) [OF inv] by simp
  fix t'' show "owner (pcs ?s t') \<Longrightarrow> owner (pcs ?s t'') \<Longrightarrow>
        call_of (pcs ?s t') = call_of (pcs ?s t'') \<Longrightarrow> t' = t''"
    using sf_invD(6) [OF inv, of t' t''] new(1)
    by (cases "t' = t"; cases "t'' = t") auto
  show "phase_ok ?s (pcs ?s t')"
    using sf_invD(7) [OF inv, of t'] new(2) by (cases "t' = t") auto
  show "owner (pcs ?s t') \<Longrightarrow> call_of (pcs ?s t') = Some c \<Longrightarrow>
        call_map ?s (key_of ?s t') = Some c"
    using sf_invD(8) [OF inv, of t' c] new(1) by (cases "t' = t") auto
qed

lemma inv_delete_key:
  assumes inv: "sf_inv s" and at: "pcs s t = Deleting c"
  shows "sf_inv (s\<lparr>call_map := (call_map s)(key_of s t := None),
                   pcs := (pcs s)(t := Returning c)\<rparr>)"
    (is "sf_inv ?s")
proof (rule sf_invI)
  from sf_invD(7) [OF inv, of t] at have c1: "invoked s c = 1" by simp
  from sf_invD(4) [OF inv, of t c] at have cb: "c < new_call s" by simp
  from sf_invD(8) [OF inv, of t c] at have mine: "call_map s (key_of s t) = Some c" by simp
  fix d show "invoked ?s d \<le> 1" using sf_invD(1) [OF inv] by simp
  show "new_call ?s \<le> d \<Longrightarrow> invoked ?s d = 0" using sf_invD(2) [OF inv] by simp
  show "d < new_call ?s \<Longrightarrow> wg ?s d = 0 \<Longrightarrow> invoked ?s d = 1"
    using sf_invD(3) [OF inv] by simp
  fix t' show "call_of (pcs ?s t') = Some d \<Longrightarrow> d < new_call ?s"
    using sf_invD(4) [OF inv, of t' d] cb by (cases "t' = t") auto
  fix k' show "call_map ?s k' = Some d \<Longrightarrow> d < new_call ?s"
    using sf_invD(5) [OF inv, of k' d] by (cases "k' = key_of s t") auto
  fix t'' show "owner (pcs ?s t') \<Longrightarrow> owner (pcs ?s t'') \<Longrightarrow>
        call_of (pcs ?s t') = call_of (pcs ?s t'') \<Longrightarrow> t' = t''"
    using sf_invD(6) [OF inv, of t' t'']
    by (cases "t' = t"; cases "t'' = t") auto
  show "phase_ok ?s (pcs ?s t')"
    using sf_invD(7) [OF inv, of t'] c1 by (cases "t' = t") auto
  show "call_map ?s (key_of ?s t') = Some d"
    if o: "owner (pcs ?s t')" and b: "call_of (pcs ?s t') = Some d"
  proof (cases "t' = t")
    case True
    with o show ?thesis by simp
  next
    case False
    from o b False have o': "owner (pcs s t')" and b': "call_of (pcs s t') = Some d" by simp_all
    from sf_invD(8) [OF inv o' b'] have e: "call_map s (key_of s t') = Some d" .
    have "key_of s t' \<noteq> key_of s t"
    proof
      assume "key_of s t' = key_of s t"
      with e mine have "d = c" by simp
      with sf_invD(6) [OF inv, of t' t] o' b' at have "t' = t" by simp
      with False show False by simp
    qed
    with e show ?thesis by simp
  qed
qed

lemma inv_run_fn:
  assumes inv: "sf_inv s" and at: "pcs s t = Calling c"
  shows "sf_inv (s\<lparr>results := (results s)(c := r),
                   invoked := (invoked s)(c := Suc (invoked s c)),
                   pcs := (pcs s)(t := Signalling c)\<rparr>)"
    (is "sf_inv ?s")
proof (rule sf_invI)
  from sf_invD(7) [OF inv, of t] at have c0: "invoked s c = 0" and w1: "wg s c = 1" by simp_all
  from sf_invD(4) [OF inv, of t c] at have cb: "c < new_call s" by simp
  fix d show "invoked ?s d \<le> 1" using sf_invD(1) [OF inv, of d] c0 by simp
  show "new_call ?s \<le> d \<Longrightarrow> invoked ?s d = 0" using sf_invD(2) [OF inv, of d] cb by auto
  show "d < new_call ?s \<Longrightarrow> wg ?s d = 0 \<Longrightarrow> invoked ?s d = 1"
    using sf_invD(3) [OF inv, of d] c0 by auto
  fix t' show "call_of (pcs ?s t') = Some d \<Longrightarrow> d < new_call ?s"
    using sf_invD(4) [OF inv, of t' d] cb by (cases "t' = t") auto
  fix k show "call_map ?s k = Some d \<Longrightarrow> d < new_call ?s" using sf_invD(5) [OF inv] by simp
  fix t'' show "owner (pcs ?s t') \<Longrightarrow> owner (pcs ?s t'') \<Longrightarrow>
        call_of (pcs ?s t') = call_of (pcs ?s t'') \<Longrightarrow> t' = t''"
    using sf_invD(6) [OF inv, of t' t''] sf_invD(6) [OF inv, of t t''] sf_invD(6) [OF inv, of t' t] at
    by (cases "t' = t"; cases "t'' = t") auto
  show "phase_ok ?s (pcs ?s t')"
  proof (cases "t' = t")
    case True
    then show ?thesis using w1 c0 by simp
  next
    case False
    from sf_invD(6) [OF inv, of t' t] at False
    have no: "pcs s t' \<noteq> Calling c" "pcs s t' \<noteq> Signalling c" by auto
    from sf_invD(7) [OF inv, of t'] False no c0 show ?thesis
      by (cases "pcs s t'") auto
  qed
  show "owner (pcs ?s t') \<Longrightarrow> call_of (pcs ?s t') = Some d \<Longrightarrow>
        call_map ?s (key_of ?s t') = Some d"
    using sf_invD(8) [OF inv, of t' d] at by (cases "t' = t") auto
qed

lemma inv_signal:
  assumes inv: "sf_inv s" and at: "pcs s t = Signalling c"
  shows "sf_inv (s\<lparr>wg := (wg s)(c := wg s c - 1), pcs := (pcs s)(t := Deleting c)\<rparr>)"
    (is "sf_inv ?s")
proof (rule sf_invI)
  from sf_invD(7) [OF inv, of t] at have c1: "invoked s c = 1" and w1: "wg s c = 1" by simp_all
  from sf_invD(4) [OF inv, of t c] at have cb: "c < new_call s" by simp
  fix d show "invoked ?s d \<le> 1" using sf_invD(1) [OF inv, of d] by simp
  show "new_call ?s \<le> d \<Longrightarrow> invoked ?s d = 0" using sf_invD(2) [OF inv, of d] by simp
  show "d < new_call ?s \<Longrightarrow> wg ?s d = 0 \<Longrightarrow> invoked ?s d = 1"
    using sf_invD(3) [OF inv, of d] c1 by (cases "d = c") auto
  fix t' show "call_of (pcs ?s t') = Some d \<Longrightarrow> d < new_call ?s"
    using sf_invD(4) [OF inv, of t' d] cb by (cases "t' = t") auto
  fix k show "call_map ?s k = Some d \<Longrightarrow> d < new_call ?s" using sf_invD(5) [OF inv] by simp
  fix t'' show "owner (pcs ?s t') \<Longrightarrow> owner (pcs ?s t'') \<Longrightarrow>
        call_of (pcs ?s t') = call_of (pcs ?s t'') \<Longrightarrow> t' = t''"
    using sf_invD(6) [OF inv, of t' t''] sf_invD(6) [OF inv, of t t''] sf_invD(6) [OF inv, of t' t] at
    by (cases "t' = t"; cases "t'' = t") auto
  show "phase_ok ?s (pcs ?s t')"
  proof (cases "t' = t")
    case True
    then show ?thesis using c1 by simp
  next
    case False
    from sf_invD(6) [OF inv, of t' t] at False
    have no: "pcs s t' \<noteq> Calling c" "pcs s t' \<noteq> Signalling c" by auto
    from sf_invD(7) [OF inv, of t'] False no show ?thesis
      by (cases "pcs s t'") auto
  qed
  show "owner (pcs ?s t') \<Longrightarrow> call_of (pcs ?s t') = Some d \<Longrightarrow>
        call_map ?s (key_of ?s t') = Some d"
    using sf_invD(8) [OF inv, of t' d] at by (cases "t' = t") auto
qed

lemma inv_new_call:
  assumes inv: "sf_inv s" and at: "pcs s t = Start" and free: "call_map s (key_of s t) = None"
  shows "sf_inv (s\<lparr>call_map := (call_map s)(key_of s t \<mapsto> new_call s),
                   wg := (wg s)(new_call s := 1),
                   results := (results s)(new_call s := ([], None)),
                   new_call := Suc (new_call s),
                   pcs := (pcs s)(t := Calling (new_call s))\<rparr>)"
    (is "sf_inv ?s")
proof (rule sf_invI)
  from sf_invD(2) [OF inv, of "new_call s"] have n0: "invoked s (new_call s) = 0" by simp
  fix d show "invoked ?s d \<le> 1" using sf_invD(1) [OF inv, of d] by simp
  show "new_call ?s \<le> d \<Longrightarrow> invoked ?s d = 0" using sf_invD(2) [OF inv, of d] by simp
  show "d < new_call ?s \<Longrightarrow> wg ?s d = 0 \<Longrightarrow> invoked ?s d = 1"
    using sf_invD(3) [OF inv, of d] by (cases "d = new_call s") auto
  fix t' show "call_of (pcs ?s t') = Some d \<Longrightarrow> d < new_call ?s"
    using sf_invD(4) [OF inv, of t' d] by (cases "t' = t") auto
  fix k' show "call_map ?s k' = Some d \<Longrightarrow> d < new_call ?s"
    using sf_invD(5) [OF inv, of k' d] by (cases "k' = key_of s t") auto
  fix t'' show "owner (pcs ?s t') \<Longrightarrow> owner (pcs ?s t'') \<Longrightarrow>
        call_of (pcs ?s t') = call_of (pcs ?s t'') \<Longrightarrow> t' = t''"
    using sf_invD(6) [OF inv, of t' t''] sf_invD(4) [OF inv, of t' "new_call s"]
      sf_invD(4) [OF inv, of t'' "new_call s"]
    by (cases "t' = t"; cases "t'' = t") auto
  show "phase_ok ?s (pcs ?s t')"
  proof (cases "t' = t")
    case True
    then show ?thesis using n0 by simp
  next
    case False
    have "call_of (pcs s t') \<noteq> Some (new_call s)"
      using sf_invD(4) [OF inv, of t' "new_call s"] by auto
    with sf_invD(7) [OF inv, of t'] False show ?thesis
      by (cases "pcs s t'") auto
  qed
  show "owner (pcs ?s t') \<Longrightarrow> call_of (pcs ?s t') = Some d \<Longrightarrow>
        call_map ?s (key_of ?s t') = Some d"
    using sf_invD(8) [OF inv, of t' d] free by (cases "t' = t") auto
qed

lemma step_inv:
  assumes inv: "sf_inv s" and step: "do_step s a = Some s'"
  shows "sf_inv s'"
proof (cases a)
  case (Enter t)
  with step have at: "pcs s t = Start"
    by (auto simp add: do_step_def split: pc.splits)
  show ?thesis
  proof (cases "call_map s (key_of s t)")
    case None
    with step Enter at show ?thesis
      using inv_new_call [OF inv at None] by (simp add: do_step_def)
  next
    case (Some c)
    with step Enter at have s': "s' = s\<lparr>pcs := (pcs s)(t := Waiting c)\<rparr>"
      by (simp add: do_step_def)
    show ?thesis unfolding s'
      by (rule inv_move [OF inv]) (use sf_invD(5) [OF inv Some] in simp_all)
  qed
next
  case (Wake t)
  with step obtain c where at: "pcs s t = Waiting c" and w: "wg s c = 0"
    and s': "s' = s\<lparr>pcs := (pcs s)(t := Returning c)\<rparr>"
    by (auto simp add: do_step_def split: pc.splits if_splits)
  from sf_invD(4) [OF inv, of t c] at have cb: "c < new_call s" by simp
  show ?thesis unfolding s'
    by (rule inv_move [OF inv]) (use sf_invD(3) [OF inv cb w] cb in simp_all)
next
  case (RunFn t r)
  with step obtain c where at: "pcs s t = Calling c"
    and s': "s' = s\<lparr>results := (results s)(c := r),
                   invoked := (invoked s)(c := Suc (invoked s c)),
                   pcs := (pcs s)(t := Signalling c)\<rparr>"
    by (auto simp add: do_step_def split: pc.splits)
  show ?thesis unfolding s' by (rule inv_run_fn [OF inv at])
next
  case (SignalDone t)
  with step obtain c where at: "pcs s t = Signalling c"
    and s': "s' = s\<lparr>wg := (wg s)(c := wg s c - 1), pcs := (pcs s)(t := Deleting c)\<rparr>"
    by (auto simp add: do_step_def split: pc.splits if_splits)
  show ?thesis unfolding s' by (rule inv_signal [OF inv at])
next
  case (DeleteKey t)
  with step obtain c where at: "pcs s t = Deleting c"
    and s': "s' = s\<lparr>call_map := (call_map s)(key_of s t := None), pcs := (pcs s)(t := Returning c)\<rparr>"
    by (auto simp add: do_step_def split: pc.splits)
  show ?thesis unfolding s' by (rule inv_delete_key [OF inv at])
next
  case (Return t)
  with step obtain c where at: "pcs s t = Returning c"
    and s': "s' = s\<lparr>pcs := (pcs s)(t := Finished c (results s c))\<rparr>"
    by (auto simp add: do_step_def split: pc.splits)
  from sf_invD(4) [OF inv, of t c] sf_invD(7) [OF inv, of t] at
  have cb: "c < new_call s" and c1: "invoked s c = 1" by simp_all
  show ?thesis unfolding s'
    by (rule inv_move [OF inv]) (use cb c1 in simp_all)
qed

lemma reachable_inv: "reachable keys s \<Longrightarrow> sf_inv s"
  by (induction rule: reachable.induct) (auto intro: inv_init step_inv)

lemma reachable_run:
  "reachable keys s \<Longrightarrow> do_run s as = Some s' \<Longrightarrow> reachable keys s'"
proof (induction as arbitrary: s)
  case Nil
  then show ?case by simp
next
  case (Cons a as)
  then show ?case by (auto split: option.splits intro: reachable_step)
qed

text \<open>
  Claim C7: for every set of concurrent \<open>Do(key, fn)\<close> calls on the single-flight
  group, \<open>fn\<close> is invoked at most once per generation, and all calls that take part in
  one generation return the same value and error. A generation, the period between the
  insertion and the removal of the map entry, is one call record: it is made by the
  goroutine that inserts the entry and joined by those that find the entry. In every
  state that the interleaved goroutines can reach, for each call record \<open>c\<close>, \<open>fn\<close> has
  run at most once for \<open>c\<close>, any two goroutines that have returned from \<open>c\<close> have
  returned the same result, and until the creator of \<open>c\<close> removes the entry, the map
  holds \<open>c\<close> under the creator's key, so that the entry it removes is its own.
\<close>

theorem Do_once_and_same_result:
  assumes "reachable keys s"
  shows "invoked s c \<le> 1 \<and>
         (\<forall>t t' r r'. pcs s t = Finished c r \<longrightarrow> pcs s t' = Finished c r' \<longrightarrow> r = r') \<and>
         (\<forall>t. pcs s t = Calling c \<or> pcs s t = Signalling c \<or> pcs s t = Deleting c \<longrightarrow>
              call_map s (key_of s t) = Some c)"
proof -
  have inv: "sf_inv s" by (rule reachable_inv [OF assms])
  have same: "r = r'" if "pcs s t = Finished c r" "pcs s t' = Finished c r'" for t t' r r'
    using sf_invD(7) [OF inv, of t] sf_invD(7) [OF inv, of t'] that by simp
  have entry: "call_map s (key_of s t) = Some c"
    if "pcs s t = Calling c \<or> pcs s t = Signalling c \<or> pcs s t = Deleting c" for t
    using sf_invD(8) [OF inv, of t c] that by auto
  from sf_invD(1) [OF inv, of c] same entry show ?thesis by blast
qed

theorem Do_once_and_same_result_witness:
  "\<exists>s. do_run (flight_init (\<lambda>_. ''k''))
          [Enter 0, Enter 1, RunFn 0 ([118], None), Enter 2, SignalDone 0, Wake 1, Return 1,
           DeleteKey 0, Return 0, Wake 2, Return 2] = Some s \<and>
        pcs s 0 = Finished 0 ([118], None) \<and> pcs s 1 = Finished 0 ([118], None) \<and>
        pcs s 2 = Finished 0 ([118], None) \<and> invoked s 0 \<le> 1"
proof -
  let ?as = "[Enter 0, Enter 1, RunFn 0 ([118], None), Enter 2, SignalDone 0, Wake 1, Return 1,
           DeleteKey 0, Return 0, Wake 2, Return 2]"
  have "\<exists>s. do_run (flight_init (\<lambda>_. ''k'')) ?as = Some s \<and>
        pcs s 0 = Finished 0 ([118], None) \<and> pcs s 1 = Finished 0 ([118], None) \<and>
        pcs s 2 = Finished 0 ([118], None)"
    by (simp add: do_step_def flight_init_def)
  then obtain s where run: "do_run (flight_init (\<lambda>_. ''k'')) ?as = Some s"
    and p: "pcs s 0 = Finished 0 ([118], None)" "pcs s 1 = Finished 0 ([118], None)"
      "pcs s 2 = Finished 0 ([118], None)"
    by blast
  have reach: "reachable (\<lambda>_. ''k'') s"
    by (rule reachable_run [OF reachable_init run])
  have "invoked s 0 \<le> 1"
    by (rule Do_once_and_same_result [OF reach, of 0, THEN conjunct1])
  with run p show ?thesis by blast
qed

end
